theory Spec2Isabelle
  imports Main "HOL-Library.Word"
begin

unbundle bit_operations_syntax

section \<open>Strings and numbers of the puzzle engine\<close>

text \<open>
  The engine (\<^verbatim>\<open>src/game.ts\<close>) works on JavaScript strings, which are sequences of
  UTF-16 code units: \<^verbatim>\<open>length\<close>, \<^verbatim>\<open>split\<close>, \<^verbatim>\<open>charCodeAt\<close> and indexing all
  count code units. A string is therefore a list of code units, each a natural number.
  The two non-ASCII operators are single code units: the multiplication sign is U+00D7
  (215) and the division sign is U+00F7 (247). \<^verbatim>\<open>for (const ch of expr)\<close> iterates code
  points; a code point outside the basic plane starts with a surrogate (at least 55296),
  which is neither a digit nor an operator, so the scan over code units takes the same
  branch as the scan over code points.

  Numbers are JavaScript doubles in the source. Every number the engine computes is an
  integer obtained from digit runs by \<open>+\<close>, \<open>-\<close>, \<open>*\<close> and exact division, so it is
  modelled as an \<open>int\<close>. The double arithmetic is exact as long as the values stay below
  \<open>2 ^ 53\<close>, which holds for every expression of at most 15 characters; the private
  function \<^verbatim>\<open>evaluate\<close> only ever receives the left side of a 6-character guess or a
  candidate of at most 5 characters.
\<close>

type_synonym jchar = nat
type_synonym jstring = "jchar list"

definition js :: "string \<Rightarrow> jstring" where
  "js s = map of_char s"

abbreviation PLUS :: jchar where "PLUS \<equiv> 43"
abbreviation MINUS :: jchar where "MINUS \<equiv> 45"
abbreviation TIMES :: jchar where "TIMES \<equiv> 215"
abbreviation DIVIDE :: jchar where "DIVIDE \<equiv> 247"
abbreviation EQUALS :: jchar where "EQUALS \<equiv> 61"
abbreviation ZERO :: jchar where "ZERO \<equiv> 48"

definition EQUATION_LENGTH :: nat where
  "EQUATION_LENGTH = 6"

definition MAX_GUESSES :: nat where
  "MAX_GUESSES = 6"

text \<open>\<^verbatim>\<open>ch >= '0' && ch <= '9'\<close>: comparison of one-character strings is by code unit.\<close>

definition is_digit :: "jchar \<Rightarrow> bool" where
  "is_digit ch \<longleftrightarrow> 48 \<le> ch \<and> ch \<le> 57"

text \<open>\<^verbatim>\<open>'+-\<times>\<div>'.includes(ch)\<close> for a one-character \<^verbatim>\<open>ch\<close>.\<close>

definition is_op :: "jchar \<Rightarrow> bool" where
  "is_op ch \<longleftrightarrow> ch \<in> set [PLUS, MINUS, TIMES, DIVIDE]"

text \<open>
  \<^verbatim>\<open>Number(s)\<close> on a run of ASCII digits is its decimal value, leading zeros included,
  rounded to a double. \<open>digits_value\<close> is the decimal value without the rounding: it is
  what \<^verbatim>\<open>Number\<close> returns for runs of at most 15 digits (values below \<open>2 ^ 53\<close>), and
  differs from it for longer runs. \<^verbatim>\<open>evaluate\<close> applies it to its number tokens, which
  are non-empty digit runs by construction, of at most 5 characters in the program.
\<close>

definition digits_value :: "jstring \<Rightarrow> int" where
  "digits_value s = foldl (\<lambda>acc ch. 10 * acc + (int ch - 48)) 0 s"

text \<open>
  \<^verbatim>\<open>String(n)\<close> for an integer of magnitude below \<open>10 ^ 21\<close>: the decimal numeral, with
  a minus sign for a negative number. (From \<open>10 ^ 21\<close> on JavaScript writes an exponent;
  the targets of the program are 1 to 99 and its expression values have at most 5
  digits.)
\<close>

fun decimal :: "nat \<Rightarrow> jstring" where
  "decimal n = (if n < 10 then [48 + n] else decimal (n div 10) @ [48 + n mod 10])"

declare decimal.simps [simp del]

definition String_int :: "int \<Rightarrow> jstring" where
  "String_int i = (if i < 0 then MINUS # decimal (nat (- i)) else decimal (nat i))"

text \<open>\<^verbatim>\<open>s.padStart(n, '0')\<close>: zeros in front up to length \<open>n\<close>, nothing when already long enough.\<close>

definition padStart :: "jstring \<Rightarrow> int \<Rightarrow> jstring" where
  "padStart s n = replicate (nat (n - int (length s))) ZERO @ s"

section \<open>The expression evaluator\<close>

datatype token = Num jstring | Op jchar

text \<open>
  The scanning loop of \<^verbatim>\<open>evaluate\<close>, with its two early \<^verbatim>\<open>return null\<close> as \<open>None\<close>.
  The state is the token array and the digit buffer.
\<close>

fun scan :: "jstring \<Rightarrow> token list \<Rightarrow> jstring \<Rightarrow> (token list \<times> jstring) option" where
  "scan [] tokens numBuf = Some (tokens, numBuf)"
| "scan (ch # rest) tokens numBuf =
     (if is_digit ch then scan rest tokens (numBuf @ [ch])
      else if is_op ch then
        (if numBuf = [] then None
         else scan rest (tokens @ [Num numBuf, Op ch]) [])
      else None)"

definition tokenize :: "jstring \<Rightarrow> token list option" where
  "tokenize expr =
     (case scan expr [] [] of
        None \<Rightarrow> None
      | Some (tokens, numBuf) \<Rightarrow>
          if numBuf = [] then None else Some (tokens @ [Num numBuf]))"

text \<open>
  The precedence loop (\<^verbatim>\<open>for (let i = 1; i < tokens.length; i += 2)\<close>) reads an operator
  token and the number token after it. \<open>nums\<close> is the array used as a stack
  (\<^verbatim>\<open>pop\<close> takes its last element), \<open>ops\<close> the array of pending additive operators.
  \<^verbatim>\<open>Number.isInteger(prev / num)\<close> holds for integers \<open>prev\<close> and \<open>num \<noteq> 0\<close> exactly when
  \<open>num\<close> divides \<open>prev\<close>. The last equation covers token lists that do not alternate;
  \<open>tokenize\<close> never builds one (lemma \<open>tokenize_shape\<close> below).
\<close>

fun muldiv :: "token list \<Rightarrow> int list \<Rightarrow> jchar list \<Rightarrow> (int list \<times> jchar list) option" where
  "muldiv [] nums ops = Some (nums, ops)"
| "muldiv (Op op # Num v # rest) nums ops =
     (let num = digits_value v in
      if op = TIMES \<or> op = DIVIDE then
        (let prev = last nums; popped = butlast nums in
         if op = TIMES then muldiv rest (popped @ [prev * num]) ops
         else if num = 0 then None
         else if prev mod num \<noteq> 0 then None
         else muldiv rest (popped @ [prev div num]) ops)
      else muldiv rest (nums @ [num]) (ops @ [op]))"
| "muldiv _ nums ops = None"

text \<open>
  The final loop: \<^verbatim>\<open>result = nums[0]\<close>, then \<^verbatim>\<open>ops[i]\<close> is applied to \<^verbatim>\<open>nums[i + 1]\<close>
  for each index of \<open>ops\<close>.
\<close>

definition addsub :: "int list \<Rightarrow> jchar list \<Rightarrow> int" where
  "addsub nums ops =
     foldl (\<lambda>result (op, n). if op = PLUS then result + n else result - n)
       (hd nums) (zip ops (tl nums))"

definition evaluate :: "jstring \<Rightarrow> int option" where
  "evaluate expr =
     (case tokenize expr of
        None \<Rightarrow> None
      | Some tokens \<Rightarrow>
          (case tokens of
             [] \<Rightarrow> None
           | Op _ # _ \<Rightarrow> None
           | Num v # rest \<Rightarrow>
               (case muldiv rest [digits_value v] [] of
                  None \<Rightarrow> None
                | Some (nums, ops) \<Rightarrow> Some (addsub nums ops))))"

section \<open>The guess validator\<close>

text \<open>
  \<^verbatim>\<open>s.split(sep)\<close> for a one-character separator: the pieces between the separators, so
  one piece more than there are separators (\<^verbatim>\<open>''.split('=')\<close> is \<^verbatim>\<open>['']\<close>).
\<close>

fun split_from :: "jchar \<Rightarrow> jstring \<Rightarrow> jstring \<Rightarrow> jstring list" where
  "split_from sep [] piece = [piece]"
| "split_from sep (ch # rest) piece =
     (if ch = sep then piece # split_from sep rest []
      else split_from sep rest (piece @ [ch]))"

definition split :: "jstring \<Rightarrow> jchar \<Rightarrow> jstring list" where
  "split s sep = split_from sep s []"

text \<open>
  \<^verbatim>\<open>Number(right)\<close> in \<^verbatim>\<open>validateGuess\<close> receives an arbitrary string. The model parses
  the numerals that \<^verbatim>\<open>String\<close> of an integer can produce, a digit run with an optional
  minus sign; \<open>None\<close> stands for \<^verbatim>\<open>NaN\<close> and for every other numeral JavaScript accepts
  (white space, a plus sign, fractions, exponents, hexadecimal, \<^verbatim>\<open>Infinity\<close>). Such a
  string differs from \<^verbatim>\<open>String(target)\<close>, so the third disjunct of the source's test
  rejects it with the same message whatever \<^verbatim>\<open>Number\<close> returns
  (lemma \<open>right_side_test\<close> below).
\<close>

definition Number :: "jstring \<Rightarrow> int option" where
  "Number s =
     (case s of
        [] \<Rightarrow> None
      | ch # rest \<Rightarrow>
          if list_all is_digit s then Some (digits_value s)
          else if ch = MINUS \<and> rest \<noteq> [] \<and> list_all is_digit rest
            then Some (- digits_value rest)
          else None)"

record validation =
  valid :: bool
  error :: "jstring option"

definition msg_length :: jstring where
  "msg_length = js ''Equation must be '' @ decimal EQUATION_LENGTH @ js '' characters''"

definition msg_one_eq :: jstring where
  "msg_one_eq = js ''Equation must contain exactly one =''"

definition msg_sides :: jstring where
  "msg_sides = js ''Both sides of = must have values''"

definition msg_right :: "int \<Rightarrow> jstring" where
  "msg_right target = js ''Right side must equal '' @ String_int target"

definition msg_invalid :: jstring where
  "msg_invalid = js ''Invalid expression''"

definition msg_value :: "int \<Rightarrow> int \<Rightarrow> jstring" where
  "msg_value leftVal target =
     js ''Expression equals '' @ String_int leftVal @ js '', not '' @ String_int target"

definition reject :: "jstring \<Rightarrow> validation" where
  "reject msg = \<lparr>valid = False, error = Some msg\<rparr>"

definition validateGuess :: "jstring \<Rightarrow> int \<Rightarrow> validation" where
  "validateGuess guess target =
     (if length guess \<noteq> EQUATION_LENGTH then reject msg_length
      else
        let eqParts = split guess EQUALS in
        if length eqParts \<noteq> 2 then reject msg_one_eq
        else
          let left = eqParts ! 0; right = eqParts ! 1 in
          if length left = 0 \<or> length right = 0 then reject msg_sides
          else
            let rightVal = Number right in
            if rightVal = None \<or> rightVal \<noteq> Some target \<or> right \<noteq> String_int target
            then reject (msg_right target)
            else
              (case evaluate left of
                 None \<Rightarrow> reject msg_invalid
               | Some leftVal \<Rightarrow>
                   if leftVal \<noteq> target then reject (msg_value leftVal target)
                   else \<lparr>valid = True, error = None\<rparr>))"

section \<open>The solution synthesizer\<close>

definition ops :: "jchar list" where
  "ops = [PLUS, MINUS, TIMES, DIVIDE]"

text \<open>The test of every candidate: \<^verbatim>\<open>expr.length === length && evaluate(expr) === target\<close>.\<close>

definition hit :: "int \<Rightarrow> int \<Rightarrow> jstring \<Rightarrow> bool" where
  "hit target len expr \<longleftrightarrow> int (length expr) = len \<and> evaluate expr = Some target"

text \<open>
  A \<^verbatim>\<open>for\<close> loop whose body may \<^verbatim>\<open>return\<close>: the body is tried at each value in turn,
  and the first value it returns ends the loop (\<open>None\<close>: the body did not return).
\<close>

fun first_return :: "'i list \<Rightarrow> ('i \<Rightarrow> 'r option) \<Rightarrow> 'r option" where
  "first_return [] body = None"
| "first_return (i # rest) body =
     (case body i of Some r \<Rightarrow> Some r | None \<Rightarrow> first_return rest body)"

text \<open>The block \<^verbatim>\<open>if (length === 4)\<close>: its two nests of loops, one after the other.\<close>

definition search4 :: "int \<Rightarrow> int \<Rightarrow> jstring option" where
  "search4 target len =
     (case first_return ops (\<lambda>op. first_return [0..<100] (\<lambda>a. first_return [0..<10] (\<lambda>b.
             let aStr = padStart (decimal a) 2;
                 expr = aStr @ [op] @ decimal b
             in if hit target len expr then Some expr
                else
                  let bStr = decimal b;
                      aStr2 = padStart (decimal a) 2;
                      expr2 = bStr @ [op] @ aStr2
                  in if hit target len expr2 then Some expr2 else None))) of
        Some expr \<Rightarrow> Some expr
      | None \<Rightarrow>
          first_return ops (\<lambda>op. first_return [100..<1000] (\<lambda>a. first_return [0..<10] (\<lambda>b.
            let expr = decimal a @ [op] @ decimal b
            in if hit target len expr then Some expr else None))))"

text \<open>The block \<^verbatim>\<open>if (length === 3)\<close>.\<close>

definition search3 :: "int \<Rightarrow> int \<Rightarrow> jstring option" where
  "search3 target len =
     first_return ops (\<lambda>op. first_return [0..<10] (\<lambda>a. first_return [0..<10] (\<lambda>b.
       let expr = decimal a @ [op] @ decimal b
       in if hit target len expr then Some expr else None)))"

text \<open>
  The block \<^verbatim>\<open>if (length === 5)\<close>: for each operator two nests, then the nest of the
  expressions with two operators.
\<close>

definition search5 :: "int \<Rightarrow> int \<Rightarrow> jstring option" where
  "search5 target len =
     (case first_return ops (\<lambda>op.
             (case first_return [10..<100] (\<lambda>a. first_return [10..<100] (\<lambda>b.
                     let expr = decimal a @ [op] @ decimal b
                     in if hit target len expr then Some expr else None)) of
                Some expr \<Rightarrow> Some expr
              | None \<Rightarrow>
                  first_return [100..<1000] (\<lambda>a. first_return [0..<10] (\<lambda>b.
                    let expr = decimal a @ [op] @ decimal b
                    in if hit target len expr then Some expr
                       else
                         let expr2 = decimal b @ [op] @ decimal a
                         in if hit target len expr2 then Some expr2 else None)))) of
        Some expr \<Rightarrow> Some expr
      | None \<Rightarrow>
          first_return ops (\<lambda>op1. first_return ops (\<lambda>op2.
            first_return [0..<10] (\<lambda>a. first_return [0..<10] (\<lambda>b. first_return [0..<10] (\<lambda>c.
              let expr = decimal a @ [op1] @ decimal b @ [op2] @ decimal c
              in if hit target len expr then Some expr else None))))))"

text \<open>
  The structured part of \<^verbatim>\<open>findSolution\<close>: the blocks for length 4, 3 and 5 in the
  order of the source (the block for length 2 is a loop with an empty body). \<open>None\<close>
  means that no block returned, so that the function reaches its last line.
\<close>

definition structured :: "int \<Rightarrow> int \<Rightarrow> jstring option" where
  "structured target len =
     (case (if len = 4 then search4 target len else None) of
        Some expr \<Rightarrow> Some expr
      | None \<Rightarrow>
          (case (if len = 3 then search3 target len else None) of
             Some expr \<Rightarrow> Some expr
           | None \<Rightarrow> (if len = 5 then search5 target len else None)))"

text \<open>The last line of \<^verbatim>\<open>findSolution\<close>: \<^verbatim>\<open>String(target).padStart(length, '0')\<close>.\<close>

definition fallback :: "int \<Rightarrow> int \<Rightarrow> jstring" where
  "fallback target len = padStart (String_int target) len"

definition findSolution :: "int \<Rightarrow> int \<Rightarrow> jstring" where
  "findSolution target len =
     (case structured target len of
        Some expr \<Rightarrow> expr
      | None \<Rightarrow> fallback target len)"

definition getCanonicalSolution :: "int \<Rightarrow> jstring" where
  "getCanonicalSolution target =
     (let targetStr = String_int target;
          rightSide = EQUALS # targetStr;
          leftLen = int EQUATION_LENGTH - int (length rightSide);
          solution = findSolution target leftLen
      in solution @ rightSide)"

section \<open>The feedback scorer\<close>

datatype CellState = Correct | Present | Absent | Empty

text \<open>
  Reading an array beyond its end gives \<^verbatim>\<open>undefined\<close> in JavaScript, and
  \<^verbatim>\<open>undefined === undefined\<close> holds: \<open>at\<close> returns \<open>None\<close> there.
\<close>

definition at :: "'a list \<Rightarrow> nat \<Rightarrow> 'a option" where
  "at xs i = (if i < length xs then Some (xs ! i) else None)"

text \<open>
  The state of both loops is the pair of arrays \<open>result\<close> and \<open>used\<close>, each of
  \<open>EQUATION_LENGTH\<close> entries. \<open>green_step\<close> is the body of the first loop at index \<open>i\<close>.
\<close>

definition green_step ::
  "jstring \<Rightarrow> jstring \<Rightarrow> CellState list \<times> bool list \<Rightarrow> nat \<Rightarrow> CellState list \<times> bool list" where
  "green_step guessChars solutionChars st i =
     (case st of (result, used) \<Rightarrow>
        if at guessChars i = at solutionChars i
        then (result[i := Correct], used[i := True])
        else (result, used))"

text \<open>
  \<open>yellow_step\<close> is the body of the second loop at index \<open>i\<close>; its inner loop stops at
  the first index \<open>j\<close> that is not used and holds the guessed character.
\<close>

definition yellow_step ::
  "jstring \<Rightarrow> jstring \<Rightarrow> CellState list \<times> bool list \<Rightarrow> nat \<Rightarrow> CellState list \<times> bool list" where
  "yellow_step guessChars solutionChars st i =
     (case st of (result, used) \<Rightarrow>
        if result ! i = Correct then (result, used)
        else
          (case find (\<lambda>j. \<not> used ! j \<and> at guessChars i = at solutionChars j)
                  [0..<EQUATION_LENGTH] of
             None \<Rightarrow> (result, used)
           | Some j \<Rightarrow> (result[i := Present], used[j := True])))"

definition score_against :: "jstring \<Rightarrow> jstring \<Rightarrow> CellState list" where
  "score_against guessChars solutionChars =
     (let start = (replicate EQUATION_LENGTH Absent, replicate EQUATION_LENGTH False);
          greens = foldl (green_step guessChars solutionChars) start [0..<EQUATION_LENGTH];
          yellows = foldl (yellow_step guessChars solutionChars) greens [0..<EQUATION_LENGTH]
      in fst yellows)"

definition getGuessResult :: "jstring \<Rightarrow> int \<Rightarrow> CellState list" where
  "getGuessResult guess target = score_against guess (getCanonicalSolution target)"

section \<open>The target generator\<close>

text \<open>
  The fields of a \<^verbatim>\<open>Date\<close> that \<^verbatim>\<open>getDailyTarget\<close> reads: \<^verbatim>\<open>getFullYear()\<close>,
  \<^verbatim>\<open>getMonth()\<close> (0 for January) and \<^verbatim>\<open>getDate()\<close>.
\<close>

record date =
  fullYear :: int
  month :: nat
  dayOfMonth :: nat

definition dateStr :: "date \<Rightarrow> jstring" where
  "dateStr d =
     String_int (fullYear d) @ [MINUS] @ padStart (decimal (month d + 1)) 2
       @ [MINUS] @ padStart (decimal (dayOfMonth d)) 2"

text \<open>
  The bitwise operators of JavaScript convert their operands to 32-bit two's-complement
  integers and give such an integer; \<open>-\<close> and \<open>+\<close> between them are exact.
\<close>

definition toInt32 :: "int \<Rightarrow> int" where
  "toInt32 x = sint (word_of_int x :: 32 word)"

definition shiftLeft :: "int \<Rightarrow> nat \<Rightarrow> int" where
  "shiftLeft x n = sint (push_bit n (word_of_int x :: 32 word))"

definition bitAnd :: "int \<Rightarrow> int \<Rightarrow> int" where
  "bitAnd x y = sint ((word_of_int x :: 32 word) AND word_of_int y)"

text \<open>\<^verbatim>\<open>hash = ((hash << 5) - hash + dateStr.charCodeAt(i)) | 0\<close>\<close>

definition hash_step :: "int \<Rightarrow> jchar \<Rightarrow> int" where
  "hash_step hash ch = toInt32 (shiftLeft hash 5 - hash + int ch)"

definition hash_of :: "jstring \<Rightarrow> int" where
  "hash_of s = foldl hash_step 0 s"

text \<open>
  \<^verbatim>\<open>((hash & 0x7fffffff) % 99) + 1\<close>; the left operand of \<^verbatim>\<open>%\<close> is not negative, where
  the remainder of JavaScript and \<open>mod\<close> agree.
\<close>

definition target_of_string :: "jstring \<Rightarrow> int" where
  "target_of_string s = bitAnd (hash_of s) 0x7fffffff mod 99 + 1"

definition getDailyTarget :: "date \<Rightarrow> int" where
  "getDailyTarget d = target_of_string (dateStr d)"

section \<open>The statistics update of a completed game\<close>

record GameStats =
  played :: int
  won :: int
  streak :: int
  maxStreak :: int
  guessDistribution :: "int list"
  lastDay :: int

text \<open>
  The block \<^verbatim>\<open>if (done) { ... }\<close> of \<^verbatim>\<open>submitGuess\<close> in \<^verbatim>\<open>src/App.tsx\<close>: the statistics
  that are saved when a game completes on day \<open>dayNumber\<close>, won or lost, after
  \<open>guessCount\<close> guesses (\<^verbatim>\<open>newGuesses.length\<close>, from 1 to \<open>MAX_GUESSES\<close>, so that the
  slot \<open>guessCount - 1\<close> of the distribution exists).
\<close>

definition completed :: "GameStats \<Rightarrow> int \<Rightarrow> bool \<Rightarrow> nat \<Rightarrow> GameStats" where
  "completed stats dayNumber isWin guessCount =
     (let newStats = stats\<lparr>played := played stats + 1\<rparr>;
          newStats =
            (if isWin then
               (let s1 = newStats\<lparr>won := won newStats + 1\<rparr>;
                    s2 = s1\<lparr>streak :=
                           (if lastDay stats = dayNumber - 1 \<or> lastDay stats = 0
                            then streak stats + 1 else 1)\<rparr>;
                    s3 = s2\<lparr>maxStreak := max (maxStreak s2) (streak s2)\<rparr>
                in s3\<lparr>guessDistribution :=
                        (guessDistribution s3)[guessCount - 1 :=
                           guessDistribution s3 ! (guessCount - 1) + 1]\<rparr>)
             else newStats\<lparr>streak := 0\<rparr>)
      in newStats\<lparr>lastDay := dayNumber\<rparr>)"

text \<open>The statistics that \<^verbatim>\<open>loadStats\<close> returns when nothing is stored.\<close>

definition initialStats :: GameStats where
  "initialStats =
     \<lparr>played = 0, won = 0, streak = 0, maxStreak = 0,
      guessDistribution = [0, 0, 0, 0, 0, 0], lastDay = 0\<rparr>"

text \<open>
  The part of the component state of \<^verbatim>\<open>src/App.tsx\<close> that \<^verbatim>\<open>submitGuess\<close> reads and
  writes (the fields carry a prefix, since \<open>won\<close> is also a field of the statistics).
\<close>

record App =
  app_guesses :: "jstring list"
  app_finished :: bool
  app_won :: bool
  app_stats :: GameStats

text \<open>
  \<^verbatim>\<open>submitGuess\<close> for the target and day number of the session, with the typed guess as
  an argument. It returns early when the game is finished or the validator rejects the
  guess; \<open>isWin\<close> is the validity of the guess, computed a second time.
\<close>

definition submitGuess :: "int \<Rightarrow> int \<Rightarrow> jstring \<Rightarrow> App \<Rightarrow> App" where
  "submitGuess target dayNumber currentGuess app =
     (if app_finished app then app
      else
        let validation = validateGuess currentGuess target in
        if \<not> valid validation then app
        else
          let newGuesses = app_guesses app @ [currentGuess];
              isCorrect = valid (validateGuess currentGuess target);
              isWin = isCorrect;
              isLast = (length newGuesses \<ge> MAX_GUESSES);
              done = (isWin \<or> isLast)
          in if done
             then app\<lparr>app_guesses := newGuesses, app_finished := True, app_won := isWin,
                      app_stats := completed (app_stats app) dayNumber isWin (length newGuesses)\<rparr>
             else app\<lparr>app_guesses := newGuesses\<rparr>)"

text \<open>
  What happens to the application over time: a guess is submitted (with the target and
  the day number of that moment), or the page is opened and \<^verbatim>\<open>loadState\<close> finds no state
  saved for the day, so that the session starts with no guesses while the statistics are
  the stored ones. \<open>run\<close> applies a sequence of such events; the first visit starts from
  \<open>initialApp\<close>.
\<close>

datatype event = Submit int int jstring | Reload

fun run :: "App \<Rightarrow> event list \<Rightarrow> App" where
  "run app [] = app"
| "run app (Submit target dayNumber guess # events) =
     run (submitGuess target dayNumber guess app) events"
| "run app (Reload # events) =
     run (app\<lparr>app_guesses := [], app_finished := False, app_won := False\<rparr>) events"

definition initialApp :: App where
  "initialApp =
     \<lparr>app_guesses = [], app_finished = False, app_won = False, app_stats = initialStats\<rparr>"

section \<open>The evaluator as the specification describes it\<close>

text \<open>
  The definitions of this section follow the words of the specification, not the source;
  the theorems below compare them with \<open>evaluate\<close>.

  After the first number, a token list is a sequence of operations: an operator and its
  right operand.
\<close>

fun operations :: "token list \<Rightarrow> (jchar \<times> int) list" where
  "operations (Op op # Num v # rest) = (op, digits_value v) # operations rest"
| "operations _ = []"

text \<open>
  First pass: the multiplications and divisions are resolved from left to right, which
  leaves a first number and a flat list of additions and subtractions. \<open>x\<close> is the value
  of the product that is being resolved. A division by zero or with a remainder fails.
\<close>

fun resolve_products :: "int \<Rightarrow> (jchar \<times> int) list \<Rightarrow> (int \<times> (jchar \<times> int) list) option" where
  "resolve_products x [] = Some (x, [])"
| "resolve_products x ((op, y) # rest) =
     (if op = TIMES then resolve_products (x * y) rest
      else if op = DIVIDE then
        (if y = 0 \<or> x mod y \<noteq> 0 then None else resolve_products (x div y) rest)
      else
        (case resolve_products y rest of
           None \<Rightarrow> None
         | Some (z, flat) \<Rightarrow> Some (x, (op, z) # flat)))"

text \<open>Second pass: the additions and subtractions are folded from left to right.\<close>

definition fold_sums :: "int \<Rightarrow> (jchar \<times> int) list \<Rightarrow> int" where
  "fold_sums x flat = foldl (\<lambda>acc (op, y). if op = PLUS then acc + y else acc - y) x flat"

definition two_pass :: "jstring \<Rightarrow> int option" where
  "two_pass expr =
     (case tokenize expr of
        Some (Num v # rest) \<Rightarrow>
          (case resolve_products (digits_value v) (operations rest) of
             None \<Rightarrow> None
           | Some (x, flat) \<Rightarrow> Some (fold_sums x flat))
      | _ \<Rightarrow> None)"

text \<open>The ways in which an expression is malformed, stated on the string.\<close>

definition has_foreign :: "jstring \<Rightarrow> bool" where
  "has_foreign expr \<longleftrightarrow> list_ex (\<lambda>ch. \<not> is_digit ch \<and> \<not> is_op ch) expr"

fun adjacent_ops :: "jstring \<Rightarrow> bool" where
  "adjacent_ops (c # d # rest) \<longleftrightarrow> (is_op c \<and> is_op d) \<or> adjacent_ops (d # rest)"
| "adjacent_ops _ \<longleftrightarrow> False"

text \<open>
  An operator has no number before it when it is the first character or comes right
  after another operator.
\<close>

definition operator_without_number :: "jstring \<Rightarrow> bool" where
  "operator_without_number expr \<longleftrightarrow> (expr \<noteq> [] \<and> is_op (hd expr)) \<or> adjacent_ops expr"

definition ends_mid_operator :: "jstring \<Rightarrow> bool" where
  "ends_mid_operator expr \<longleftrightarrow> expr \<noteq> [] \<and> is_op (last expr)"

text \<open>
  A division fails when, in the evaluation from left to right, a divisor is 0 or does not
  divide the value of the product before it. \<open>x\<close> is that value.
\<close>

fun bad_division :: "int \<Rightarrow> (jchar \<times> int) list \<Rightarrow> bool" where
  "bad_division x [] \<longleftrightarrow> False"
| "bad_division x ((op, y) # rest) \<longleftrightarrow>
     (if op = TIMES then bad_division (x * y) rest
      else if op = DIVIDE then y = 0 \<or> x mod y \<noteq> 0 \<or> bad_division (x div y) rest
      else bad_division y rest)"

definition division_fails :: "jstring \<Rightarrow> bool" where
  "division_fails expr \<longleftrightarrow>
     (case tokenize expr of
        Some (Num v # rest) \<Rightarrow> bad_division (digits_value v) (operations rest)
      | _ \<Rightarrow> False)"

text \<open>
  The shape of the token arrays: the scanning loop appends a number and an operator at a
  time, and the finished array is a number followed by operator-number pairs.
\<close>

fun num_op_pairs :: "token list \<Rightarrow> bool" where
  "num_op_pairs [] \<longleftrightarrow> True"
| "num_op_pairs (Num v # Op op # rest) \<longleftrightarrow> num_op_pairs rest"
| "num_op_pairs _ \<longleftrightarrow> False"

fun alternating :: "token list \<Rightarrow> bool" where
  "alternating [] \<longleftrightarrow> True"
| "alternating (Op op # Num v # rest) \<longleftrightarrow> alternating rest"
| "alternating _ \<longleftrightarrow> False"

section \<open>The validator and the hash as the specification describes them\<close>

text \<open>
  The two sides of an equation with one equals sign: what stands before it and what
  stands after it.
\<close>

definition left_of :: "jstring \<Rightarrow> jstring" where
  "left_of guess = takeWhile (\<lambda>ch. ch \<noteq> EQUALS) guess"

definition right_of :: "jstring \<Rightarrow> jstring" where
  "right_of guess = tl (dropWhile (\<lambda>ch. ch \<noteq> EQUALS) guess)"

text \<open>Wrapping an integer to 32 bits, read as signed two's complement.\<close>

definition wrap32 :: "int \<Rightarrow> int" where
  "wrap32 x = (x + 2 ^ 31) mod 2 ^ 32 - 2 ^ 31"

text \<open>The rolling hash: start at 0, multiply by 31 and add the character code, wrapped.\<close>

definition hash31 :: "jstring \<Rightarrow> int" where
  "hash31 s = foldl (\<lambda>h ch. wrap32 (h * 31 + int ch)) 0 s"

section \<open>The scorer as the specification describes it\<close>

text \<open>
  First pass: position \<open>i\<close> is marked correct, and solution position \<open>i\<close> is consumed,
  when the guess and the solution hold the same character there.
\<close>

definition exact_positions :: "jstring \<Rightarrow> jstring \<Rightarrow> nat list" where
  "exact_positions guess solution =
     filter (\<lambda>i. guess ! i = solution ! i) [0..<EQUATION_LENGTH]"

definition other_positions :: "jstring \<Rightarrow> jstring \<Rightarrow> nat list" where
  "other_positions guess solution =
     filter (\<lambda>i. guess ! i \<noteq> solution ! i) [0..<EQUATION_LENGTH]"

text \<open>
  Second pass: the remaining guess positions are visited from left to right. Each takes
  the first solution position, among those not consumed yet (\<open>free\<close>, from left to
  right), that holds its character; that position is then consumed and the guess
  position is marked present. The result lists the guess positions marked present.
\<close>

fun present_positions :: "jstring \<Rightarrow> jstring \<Rightarrow> nat list \<Rightarrow> nat list \<Rightarrow> nat list" where
  "present_positions guess solution [] free = []"
| "present_positions guess solution (i # rest) free =
     (case find (\<lambda>j. solution ! j = guess ! i) free of
        None \<Rightarrow> present_positions guess solution rest free
      | Some j \<Rightarrow> i # present_positions guess solution rest (remove1 j free))"

definition two_pass_score :: "jstring \<Rightarrow> jstring \<Rightarrow> CellState list" where
  "two_pass_score guess solution =
     (let exact = exact_positions guess solution;
          others = other_positions guess solution;
          present = present_positions guess solution others others
      in map (\<lambda>i. if i \<in> set exact then Correct
                   else if i \<in> set present then Present
                   else Absent) [0..<EQUATION_LENGTH])"

text \<open>
  The number of positions of the guess that hold the character \<open>c\<close> and are marked
  correct or present.
\<close>

definition marked_count :: "jstring \<Rightarrow> CellState list \<Rightarrow> jchar \<Rightarrow> nat" where
  "marked_count guess result c =
     length (filter (\<lambda>i. guess ! i = c \<and> (result ! i = Correct \<or> result ! i = Present))
               [0..<length guess])"

section \<open>Basic facts about strings, numerals and the evaluator\<close>

lemma scan_digits:
  "list_all is_digit s \<Longrightarrow> scan s tokens numBuf = Some (tokens, numBuf @ s)"
  by (induction s arbitrary: numBuf) simp_all

lemma scan_alphabet:
  "scan s tokens numBuf = Some r \<Longrightarrow> \<forall>ch \<in> set s. is_digit ch \<or> is_op ch"
  by (induction s arbitrary: tokens numBuf) (auto split: if_splits)

lemma evaluate_digits:
  "s \<noteq> [] \<Longrightarrow> list_all is_digit s \<Longrightarrow> evaluate s = Some (digits_value s)"
  by (simp add: evaluate_def tokenize_def scan_digits addsub_def)

lemma evaluate_alphabet:
  "evaluate s = Some v \<Longrightarrow> \<forall>ch \<in> set s. is_digit ch \<or> is_op ch"
  unfolding evaluate_def tokenize_def
  by (auto split: option.splits dest: scan_alphabet)

lemma evaluate_no_equals: "evaluate s = Some v \<Longrightarrow> EQUALS \<notin> set s"
  by (auto dest!: evaluate_alphabet simp: is_digit_def is_op_def)

lemma evaluate_Nil: "evaluate [] = None"
  by (simp add: evaluate_def tokenize_def)

lemma digits_value_snoc: "digits_value (s @ [ch]) = 10 * digits_value s + (int ch - 48)"
  by (simp add: digits_value_def)

lemma digits_value_bound:
  "list_all is_digit s \<Longrightarrow> 0 \<le> digits_value s \<and> digits_value s < 10 ^ length s"
proof (induction s rule: rev_induct)
  case Nil
  then show ?case by (simp add: digits_value_def)
next
  case (snoc ch s)
  then have "0 \<le> digits_value s" "digits_value s + 1 \<le> 10 ^ length s"
    "48 \<le> int ch" "int ch \<le> 57"
    by (simp_all add: is_digit_def)
  then have "0 \<le> 10 * digits_value s + (int ch - 48)"
    "10 * digits_value s + (int ch - 48) < 10 * 10 ^ length s"
    by linarith+
  then show ?case by (simp add: digits_value_snoc)
qed

lemma digits_value_zeros: "digits_value (replicate k ZERO @ s) = digits_value s"
proof -
  have "foldl (\<lambda>acc ch. 10 * acc + (int ch - 48)) 0 (replicate k ZERO) = 0"
    by (induction k) simp_all
  then show ?thesis by (simp add: digits_value_def)
qed

lemma digits_value_decimal: "digits_value (decimal n) = int n"
proof (induction n rule: decimal.induct)
  case (1 n)
  show ?case
  proof (cases "n < 10")
    case True
    then show ?thesis by (simp add: decimal.simps [of n] digits_value_def)
  next
    case False
    have "10 * int (n div 10) + int (n mod 10) = int n" by presburger
    with 1 False show ?thesis
      by (simp add: decimal.simps [of n] digits_value_snoc)
  qed
qed

lemma decimal_digits: "list_all is_digit (decimal n)"
proof (induction n rule: decimal.induct)
  case (1 n)
  then show ?case
    by (cases "n < 10") (simp_all add: decimal.simps [of n] is_digit_def)
qed

lemma decimal_not_Nil: "decimal n \<noteq> []"
  by (simp add: decimal.simps [of n])

lemma length_decimal_1: "n < 10 \<Longrightarrow> length (decimal n) = 1"
  by (simp add: decimal.simps [of n])

lemma length_decimal_2: "10 \<le> n \<Longrightarrow> n < 100 \<Longrightarrow> length (decimal n) = 2"
  by (simp add: decimal.simps [of n] length_decimal_1)

lemma String_int_nat: "0 \<le> t \<Longrightarrow> String_int t = decimal (nat t)"
  by (simp add: String_int_def)

lemma split_from_no_sep:
  "sep \<notin> set s \<Longrightarrow> split_from sep s piece = [piece @ s]"
  by (induction s arbitrary: piece) auto

lemma split_from_first:
  "sep \<notin> set l \<Longrightarrow> split_from sep (l @ sep # r) piece = (piece @ l) # split_from sep r []"
  by (induction l arbitrary: piece) auto

lemma split_two:
  "sep \<notin> set l \<Longrightarrow> sep \<notin> set r \<Longrightarrow> split (l @ sep # r) sep = [l, r]"
  by (simp add: split_def split_from_first split_from_no_sep)

lemma Number_digits:
  "s \<noteq> [] \<Longrightarrow> list_all is_digit s \<Longrightarrow> Number s = Some (digits_value s)"
  by (cases s) (simp_all add: Number_def)

lemma Number_String_int: "Number (String_int t) = Some t"
proof (cases "t < 0")
  case True
  have "\<not> is_digit MINUS" by (simp add: is_digit_def)
  with True show ?thesis
    by (simp add: Number_def String_int_def decimal_digits decimal_not_Nil digits_value_decimal)
next
  case False
  then show ?thesis
    by (simp add: String_int_def Number_digits decimal_digits decimal_not_Nil
        digits_value_decimal)
qed

lemma right_side_test:
  "(Number right = None \<or> Number right \<noteq> Some target \<or> right \<noteq> String_int target)
     \<longleftrightarrow> right \<noteq> String_int target"
  using Number_String_int by auto

lemma String_int_no_equals: "EQUALS \<notin> set (String_int t)"
  using decimal_digits [of "nat t"] decimal_digits [of "nat (- t)"]
  by (auto simp: String_int_def list_all_iff is_digit_def)

lemma String_int_not_Nil: "String_int t \<noteq> []"
  by (simp add: String_int_def decimal_not_Nil)

lemma validate_accepts:
  assumes len: "length (l @ EQUALS # String_int t) = EQUATION_LENGTH"
    and ev: "evaluate l = Some t"
  shows "validateGuess (l @ EQUALS # String_int t) t = \<lparr>valid = True, error = None\<rparr>"
proof -
  have parts: "split (l @ EQUALS # String_int t) EQUALS = [l, String_int t]"
    using ev by (intro split_two evaluate_no_equals String_int_no_equals)
  have "l \<noteq> []" using ev evaluate_Nil by auto
  with len parts ev show ?thesis
    unfolding validateGuess_def
    by (simp add: Let_def String_int_not_Nil Number_String_int)
qed

lemma zeros_digits: "list_all is_digit (replicate k ZERO)"
  by (induction k) (simp_all add: is_digit_def)

lemma first_return_Some:
  "first_return xs body = Some r \<Longrightarrow> \<exists>x \<in> set xs. body x = Some r"
  by (induction xs) (auto split: option.splits)

lemma first_return_None_iff:
  "first_return xs body = None \<longleftrightarrow> (\<forall>x \<in> set xs. body x = None)"
  by (induction xs) (auto split: option.splits)

lemma first_return_hit:
  assumes "first_return xs body = Some e"
    and "\<And>x r. body x = Some r \<Longrightarrow> hit t len r"
  shows "hit t len e"
  using first_return_Some [OF assms(1)] assms(2) by blast

lemma or_else_cases:
  assumes "(case a of Some r \<Rightarrow> Some r | None \<Rightarrow> b) = Some e"
  obtains "a = Some e" | "b = Some e"
  using assms by (cases a) auto

lemma try_hit: "(if hit t len e then Some e else None) = Some r \<Longrightarrow> hit t len r"
  by (simp split: if_splits)

lemma try_two_hit:
  "(if hit t len e then Some e else if hit t len e' then Some e' else None) = Some r
     \<Longrightarrow> hit t len r"
  by (simp split: if_splits)

lemma search3_hit:
  assumes "search3 t len = Some e"
  shows "hit t len e"
  using assms unfolding search3_def Let_def
  by (elim first_return_hit) (rule try_hit)

lemma search4_hit:
  assumes "search4 t len = Some e"
  shows "hit t len e"
  using assms unfolding search4_def Let_def
proof (cases rule: or_else_cases)
  case 1
  then show ?thesis by (elim first_return_hit) (rule try_two_hit)
next
  case 2
  then show ?thesis by (elim first_return_hit) (rule try_hit)
qed

lemma search5_hit:
  assumes "search5 t len = Some e"
  shows "hit t len e"
  using assms unfolding search5_def Let_def
proof (cases rule: or_else_cases)
  case 1
  then show ?thesis
  proof (rule first_return_hit)
    fix op r
    assume "(case first_return [10..<100] (\<lambda>a. first_return [10..<100] (\<lambda>b.
                if hit t len (decimal a @ [op] @ decimal b)
                then Some (decimal a @ [op] @ decimal b) else None)) of
              Some expr \<Rightarrow> Some expr
            | None \<Rightarrow>
                first_return [100..<1000] (\<lambda>a. first_return [0..<10] (\<lambda>b.
                  if hit t len (decimal a @ [op] @ decimal b)
                  then Some (decimal a @ [op] @ decimal b)
                  else if hit t len (decimal b @ [op] @ decimal a)
                    then Some (decimal b @ [op] @ decimal a) else None))) = Some r"
    then show "hit t len r"
    proof (cases rule: or_else_cases)
      case 1
      then show ?thesis by (elim first_return_hit) (rule try_hit)
    next
      case 2
      then show ?thesis by (elim first_return_hit) (rule try_two_hit)
    qed
  qed
next
  case 2
  then show ?thesis by (elim first_return_hit) (rule try_hit)
qed

lemma structured_hit: "structured t len = Some e \<Longrightarrow> hit t len e"
  unfolding structured_def
  by (auto split: option.splits if_splits dest: search4_hit search3_hit search5_hit)

lemma fallback_evaluates:
  assumes "0 \<le> t"
  shows "evaluate (fallback t len) = Some t"
proof -
  have "fallback t len = replicate (nat (len - int (length (decimal (nat t))))) ZERO @ decimal (nat t)"
    using assms by (simp add: fallback_def padStart_def String_int_nat)
  moreover have "list_all is_digit (replicate k ZERO @ decimal (nat t))" for k
    by (simp add: decimal_digits zeros_digits)
  ultimately show ?thesis
    using assms by (simp add: evaluate_digits decimal_not_Nil digits_value_zeros digits_value_decimal)
qed

lemma length_fallback:
  "int (length (String_int t)) \<le> len \<Longrightarrow> int (length (fallback t len)) = len"
  by (simp add: fallback_def padStart_def)

lemma findSolution_sound:
  assumes "0 \<le> t" "int (length (String_int t)) \<le> len"
  shows "int (length (findSolution t len)) = len \<and> evaluate (findSolution t len) = Some t"
proof (cases "structured t len")
  case None
  with assms show ?thesis
    by (simp add: findSolution_def fallback_evaluates length_fallback)
next
  case (Some e)
  then show ?thesis
    using structured_hit [OF Some] by (simp add: findSolution_def hit_def)
qed

lemma length_String_int_small:
  assumes "1 \<le> t" "t \<le> 99"
  shows "length (String_int t) = 1 \<or> length (String_int t) = 2"
proof (cases "t < 10")
  case True
  with assms show ?thesis by (simp add: String_int_nat length_decimal_1)
next
  case False
  with assms show ?thesis by (simp add: String_int_nat length_decimal_2)
qed

lemma canonical_form:
  assumes "1 \<le> t" "t \<le> 99"
  shows "\<exists>left. getCanonicalSolution t = left @ EQUALS # String_int t
           \<and> length (getCanonicalSolution t) = EQUATION_LENGTH
           \<and> evaluate left = Some t"
proof -
  define len where "len = int EQUATION_LENGTH - int (length (EQUALS # String_int t))"
  define left where "left = findSolution t len"
  have canon: "getCanonicalSolution t = left @ EQUALS # String_int t"
    by (simp add: getCanonicalSolution_def Let_def left_def len_def)
  have "int (length (String_int t)) \<le> len"
    using length_String_int_small [OF assms] by (auto simp: len_def EQUATION_LENGTH_def)
  with assms have sound: "int (length left) = len" "evaluate left = Some t"
    using findSolution_sound [of t len] by (simp_all add: left_def)
  have "length (left @ EQUALS # String_int t) = EQUATION_LENGTH"
    using sound(1) length_String_int_small [OF assms]
    by (auto simp: len_def EQUATION_LENGTH_def)
  with canon sound(2) show ?thesis by simp
qed

section \<open>Evaluating the search at concrete targets\<close>

lemma upt_0_10: "[0..<10] = [0, 1, 2, 3, 4, 5, 6, 7, 8, 9::nat]"
  by (simp add: upt_rec)

lemma decimal_digit: "n < 10 \<Longrightarrow> decimal n = [48 + n]"
  by (simp add: decimal.simps [of n])

lemma decimal_two: "10 \<le> n \<Longrightarrow> n < 100 \<Longrightarrow> decimal n = [48 + n div 10, 48 + n mod 10]"
  by (simp add: decimal.simps [of n] decimal_digit)

lemma first_return_upt:
  "i < j \<Longrightarrow> first_return [i..<j] body =
     (case body i of Some r \<Rightarrow> Some r | None \<Rightarrow> first_return [Suc i..<j] body)"
  by (simp add: upt_conv_Cons)

lemmas evaluate_simps =
  evaluate_def tokenize_def is_digit_def is_op_def digits_value_def addsub_def

lemmas search_simps =
  evaluate_simps hit_def decimal_digit ops_def Let_def upt_0_10 padStart_def

lemmas canonical_simps =
  getCanonicalSolution_def findSolution_def structured_def fallback_def padStart_def
  String_int_def decimal_digit decimal_two EQUATION_LENGTH_def js_def

lemma search4_at_5: "search4 5 4 = Some (js ''00+5'')"
  unfolding search4_def
  by (simp add: search_simps js_def first_return_upt [of 0 100])

lemma search3_at_42: "search3 42 3 = Some (js ''6'' @ [TIMES] @ js ''7'')"
  unfolding search3_def
  by (simp add: search_simps js_def)

lemma search3_at_19: "search3 19 3 = None"
  unfolding search3_def
  by (simp add: search_simps)

lemma canonical_5: "getCanonicalSolution 5 = js ''00+5=5''"
  by (simp add: canonical_simps search4_at_5)

lemma canonical_42: "getCanonicalSolution 42 = js ''6'' @ [TIMES] @ js ''7=42''"
  by (simp add: canonical_simps search3_at_42)

lemma canonical_19: "getCanonicalSolution 19 = js ''019=19''"
  by (simp add: canonical_simps search3_at_19)

section \<open>The two passes of the evaluator\<close>

lemma num_op_pairs_snoc:
  "num_op_pairs ts \<Longrightarrow> num_op_pairs (ts @ [Num v, Op op])"
  by (induction ts rule: num_op_pairs.induct) simp_all

lemma scan_pairs:
  "scan s tokens numBuf = Some (tokens', numBuf') \<Longrightarrow> num_op_pairs tokens
     \<Longrightarrow> num_op_pairs tokens'"
  by (induction s arbitrary: tokens numBuf)
    (auto split: if_splits simp: num_op_pairs_snoc)

lemma pairs_then_num:
  "num_op_pairs ts \<Longrightarrow> \<exists>v rest. ts @ [Num b] = Num v # rest \<and> alternating rest"
  by (induction ts rule: num_op_pairs.induct) auto

lemma tokenize_shape:
  assumes "tokenize s = Some ts"
  shows "\<exists>v rest. ts = Num v # rest \<and> alternating rest"
proof -
  from assms obtain tokens numBuf where
    sc: "scan s [] [] = Some (tokens, numBuf)" and ts: "ts = tokens @ [Num numBuf]"
    by (auto simp: tokenize_def split: option.splits if_splits)
  have "num_op_pairs tokens" using scan_pairs [OF sc] by simp
  then show ?thesis unfolding ts by (rule pairs_then_num)
qed

lemma muldiv_resolve:
  "alternating ts \<Longrightarrow>
   muldiv ts (ns @ [x]) os =
     (case resolve_products x (operations ts) of
        None \<Rightarrow> None
      | Some (z, flat) \<Rightarrow> Some (ns @ z # map snd flat, os @ map fst flat))"
proof (induction ts arbitrary: ns x os rule: alternating.induct)
  case 1
  then show ?case by simp
next
  case (2 op v rest)
  then have alt: "alternating rest" by simp
  show ?case
  proof (cases "op = TIMES \<or> op = DIVIDE")
    case True
    then show ?thesis
      using "2.IH" [OF alt, of ns] by (auto simp: Let_def)
  next
    case False
    then show ?thesis
      using "2.IH" [OF alt, of "ns @ [x]" "digits_value v" "os @ [op]"]
      by (auto simp: Let_def split: option.splits)
  qed
qed simp_all

lemma addsub_flat:
  "addsub (z # map snd flat) (map fst flat) = fold_sums z flat"
  by (simp add: addsub_def fold_sums_def zip_map_fst_snd)

lemma evaluate_two_pass: "evaluate e = two_pass e"
proof (cases "tokenize e")
  case None
  then show ?thesis by (simp add: evaluate_def two_pass_def)
next
  case (Some ts)
  then obtain v rest where ts: "ts = Num v # rest" and alt: "alternating rest"
    using tokenize_shape by blast
  show ?thesis
    using muldiv_resolve [OF alt, of "[]" "digits_value v" "[]"]
    by (simp add: evaluate_def two_pass_def Some ts addsub_flat split: option.splits)
qed

lemma digit_not_op: "is_digit ch \<Longrightarrow> \<not> is_op ch"
  by (auto simp: is_digit_def is_op_def)

lemma adjacent_ops_Cons:
  "adjacent_ops (c # s) \<longleftrightarrow> (is_op c \<and> s \<noteq> [] \<and> is_op (hd s)) \<or> adjacent_ops s"
  by (cases s) auto

lemma scan_None_iff:
  "scan s tokens numBuf = None \<longleftrightarrow>
     has_foreign s \<or> (s \<noteq> [] \<and> is_op (hd s) \<and> numBuf = []) \<or> adjacent_ops s"
proof (induction s arbitrary: tokens numBuf)
  case Nil
  then show ?case by (simp add: has_foreign_def)
next
  case (Cons ch s)
  show ?case
  proof (cases "is_digit ch")
    case True
    then show ?thesis
      using Cons.IH [of tokens "numBuf @ [ch]"] digit_not_op [OF True]
      by (simp add: has_foreign_def adjacent_ops_Cons)
  next
    case False
    show ?thesis
    proof (cases "is_op ch")
      case True
      then show ?thesis
        using Cons.IH [of "tokens @ [Num numBuf, Op ch]" "[]"] False
        by (auto simp: has_foreign_def adjacent_ops_Cons)
    next
      case notop: False
      with False show ?thesis by (simp add: has_foreign_def)
    qed
  qed
qed

lemma scan_buffer_empty:
  "scan s tokens numBuf = Some (tokens', numBuf') \<Longrightarrow>
     numBuf' = [] \<longleftrightarrow> (s = [] \<and> numBuf = []) \<or> (s \<noteq> [] \<and> is_op (last s))"
proof (induction s arbitrary: tokens numBuf)
  case Nil
  then show ?case by simp
next
  case (Cons ch s)
  show ?case
  proof (cases "is_digit ch")
    case True
    with Cons.prems have "scan s tokens (numBuf @ [ch]) = Some (tokens', numBuf')" by simp
    from Cons.IH [OF this] digit_not_op [OF True] show ?thesis by auto
  next
    case False
    with Cons.prems have op: "is_op ch" and "numBuf \<noteq> []"
      and "scan s (tokens @ [Num numBuf, Op ch]) [] = Some (tokens', numBuf')"
      by (auto split: if_splits)
    from Cons.IH [OF this(3)] op show ?thesis by auto
  qed
qed

lemma tokenize_None_iff:
  "tokenize s = None \<longleftrightarrow>
     s = [] \<or> has_foreign s \<or> operator_without_number s \<or> ends_mid_operator s"
proof (cases "scan s [] []")
  case None
  then show ?thesis
    using scan_None_iff [of s "[]" "[]"]
    by (auto simp: tokenize_def operator_without_number_def)
next
  case (Some r)
  obtain tokens numBuf where r: "r = (tokens, numBuf)" by (cases r)
  have "\<not> (has_foreign s \<or> operator_without_number s)"
    using scan_None_iff [of s "[]" "[]"] Some by (auto simp: operator_without_number_def)
  moreover have "numBuf = [] \<longleftrightarrow> s = [] \<or> ends_mid_operator s"
    using scan_buffer_empty [of s "[]" "[]" tokens numBuf] Some r
    by (auto simp: ends_mid_operator_def)
  ultimately show ?thesis
    using Some r by (auto simp: tokenize_def)
qed

lemma resolve_None_iff: "resolve_products x os = None \<longleftrightarrow> bad_division x os"
  by (induction x os rule: resolve_products.induct) (auto split: option.splits)

lemma two_pass_None_iff:
  "two_pass s = None \<longleftrightarrow> tokenize s = None \<or> division_fails s"
proof (cases "tokenize s")
  case None
  then show ?thesis by (simp add: two_pass_def)
next
  case (Some ts)
  then obtain v rest where ts: "ts = Num v # rest"
    using tokenize_shape by blast
  show ?thesis
    using resolve_None_iff [of "digits_value v" "operations rest"]
    by (auto simp: two_pass_def division_fails_def Some ts split: option.splits)
qed

section \<open>The hash of the date string\<close>

lemma toInt32_wrap: "toInt32 x = wrap32 x"
  by (simp add: toInt32_def wrap32_def sint_sbintrunc' signed_take_bit_eq_take_bit_shift take_bit_eq_mod)

lemma hash_step_31: "hash_step h ch = wrap32 (h * 31 + int ch)"
proof -
  have "(word_of_int (shiftLeft h 5 - h + int ch) :: 32 word) = word_of_int (h * 31 + int ch)"
    by (simp add: shiftLeft_def push_bit_eq_mult)
  then have "toInt32 (shiftLeft h 5 - h + int ch) = toInt32 (h * 31 + int ch)"
    unfolding toInt32_def by (rule arg_cong)
  then show ?thesis
    by (simp add: hash_step_def toInt32_wrap)
qed

lemma hash_of_hash31: "hash_of s = hash31 s"
proof -
  have "foldl hash_step h s = foldl (\<lambda>h ch. wrap32 (h * 31 + int ch)) h s" for h
    by (induction s arbitrary: h) (simp_all add: hash_step_31)
  then show ?thesis by (simp add: hash_of_def hash31_def)
qed

lemma bitAnd_mask: "bitAnd x 0x7fffffff = take_bit 31 x"
proof -
  have m: "(word_of_int 0x7fffffff :: 32 word) = mask 31"
    by (simp add: mask_eq_exp_minus_1)
  have "bitAnd x 0x7fffffff = sint (word_of_int (take_bit 31 x) :: 32 word)"
    unfolding bitAnd_def m and_mask_wi ..
  also have "\<dots> = signed_take_bit 31 (take_bit 31 x)"
    by (simp add: sint_sbintrunc')
  also have "\<dots> = take_bit 31 x"
  proof (rule signed_take_bit_int_eq_self)
    show "- (2 ^ 31) \<le> take_bit 31 x"
      by (rule order_trans [of _ 0]) simp_all
    show "take_bit 31 x < 2 ^ 31"
      by (rule take_bit_int_less_exp)
  qed
  finally show ?thesis .
qed

lemma int_and_mask: "(x::int) AND 0x7fffffff = take_bit 31 x"
proof -
  have "(0x7fffffff :: int) = mask 31" by (simp add: mask_eq_exp_minus_1)
  then show ?thesis by (simp add: take_bit_eq_mask)
qed

lemma target_of_string_range: "1 \<le> target_of_string s \<and> target_of_string s \<le> 99"
proof -
  have "0 \<le> take_bit 31 (hash_of s) mod 99" "take_bit 31 (hash_of s) mod 99 < 99"
    by simp_all
  then show ?thesis by (simp add: target_of_string_def bitAnd_mask)
qed

lemma target_2026_03_08:
  "getDailyTarget \<lparr>fullYear = 2026, month = 2, dayOfMonth = 8\<rparr> = 19"
proof -
  have "dateStr \<lparr>fullYear = 2026, month = 2, dayOfMonth = 8\<rparr> = js ''2026-03-08''"
    by (simp add: dateStr_def String_int_def decimal.simps padStart_def js_def)
  moreover have "hash31 (js ''2026-03-08'') = 1161725319"
    by (simp add: hash31_def wrap32_def js_def)
  ultimately show ?thesis
    by (simp add: getDailyTarget_def target_of_string_def bitAnd_mask hash_of_hash31
        take_bit_eq_mod)
qed

section \<open>The checks of the validator\<close>

lemma length_split_from: "length (split_from sep s piece) = count_list s sep + 1"
  by (induction s arbitrary: piece) simp_all

lemma length_split: "length (split s sep) = count_list s sep + 1"
  by (simp add: split_def length_split_from)

lemma split_once:
  assumes "count_list s EQUALS = 1"
  shows "split s EQUALS = [left_of s, right_of s]"
proof -
  have mem: "EQUALS \<in> set s"
    using assms count_list_0_iff [of s EQUALS] by auto
  define l where "l = takeWhile (\<lambda>ch. ch \<noteq> EQUALS) s"
  define d where "d = dropWhile (\<lambda>ch. ch \<noteq> EQUALS) s"
  have "d \<noteq> []" using mem by (auto simp: d_def)
  moreover have "hd d = EQUALS"
    using mem hd_dropWhile [of "\<lambda>ch. ch \<noteq> EQUALS" s] by (auto simp: d_def)
  ultimately have d: "d = EQUALS # tl d" by (cases d) auto
  have s: "s = l @ EQUALS # tl d"
    using takeWhile_dropWhile_id [of "\<lambda>ch. ch \<noteq> EQUALS" s] d by (simp add: l_def d_def)
  have nl: "EQUALS \<notin> set l"
    by (auto simp: l_def dest: set_takeWhileD)
  then have "count_list l EQUALS = 0" by (simp add: count_list_0_iff)
  have "count_list s EQUALS = count_list (l @ EQUALS # tl d) EQUALS"
    using s by (rule arg_cong)
  then have "count_list s EQUALS = count_list l EQUALS + (1 + count_list (tl d) EQUALS)"
    by simp
  with assms \<open>count_list l EQUALS = 0\<close> have "count_list (tl d) EQUALS = 0" by simp
  then have nr: "EQUALS \<notin> set (tl d)" by (simp add: count_list_0_iff)
  have "split (l @ EQUALS # tl d) EQUALS = [l, tl d]"
    using nl nr by (rule split_two)
  then have "split s EQUALS = [l, tl d]"
    by (subst s)
  then show ?thesis
    by (simp add: left_of_def right_of_def l_def d_def)
qed

lemma messages_distinct:
  "distinct [msg_length, msg_one_eq, msg_sides, msg_right t, msg_invalid, msg_value v t']"
  by (simp add: msg_length_def msg_one_eq_def msg_sides_def msg_right_def msg_invalid_def
      msg_value_def js_def EQUATION_LENGTH_def decimal_digit)

lemma validateGuess_chain:
  "validateGuess g t =
     (if length g \<noteq> 6 then reject msg_length
      else if count_list g EQUALS \<noteq> 1 then reject msg_one_eq
      else if left_of g = [] \<or> right_of g = [] then reject msg_sides
      else if right_of g \<noteq> String_int t then reject (msg_right t)
      else (case evaluate (left_of g) of
              None \<Rightarrow> reject msg_invalid
            | Some v \<Rightarrow>
                if v \<noteq> t then reject (msg_value v t)
                else \<lparr>valid = True, error = None\<rparr>))"
proof (cases "length g = 6 \<and> count_list g EQUALS = 1")
  case False
  then show ?thesis
    by (auto simp: validateGuess_def EQUATION_LENGTH_def length_split Let_def)
next
  case True
  then have "split g EQUALS = [left_of g, right_of g]"
    by (simp add: split_once)
  with True show ?thesis
    using right_side_test [of "right_of g" t]
    by (simp add: validateGuess_def EQUATION_LENGTH_def Let_def)
qed

lemma msg_length_text: "msg_length = js ''Equation must be 6 characters''"
  by (simp add: msg_length_def EQUATION_LENGTH_def decimal_digit js_def)

lemma message_texts_distinct:
  "distinct
     [js ''Equation must be 6 characters'',
      js ''Equation must contain exactly one ='',
      js ''Both sides of = must have values'',
      js ''Right side must equal '' @ String_int t1,
      js ''Invalid expression'',
      js ''Expression equals '' @ String_int v @ js '', not '' @ String_int t2]"
  by (simp add: js_def)

section \<open>The two passes of the scorer\<close>

lemma greens_prefix:
  assumes "length g = n" "length s = n" "m \<le> n"
  shows "foldl (green_step g s) (replicate n Absent, replicate n False) [0..<m] =
           (map (\<lambda>i. if i < m \<and> g ! i = s ! i then Correct else Absent) [0..<n],
            map (\<lambda>i. i < m \<and> g ! i = s ! i) [0..<n])"
    (is "?run m = (?R m, ?U m)")
  using assms(3)
proof (induction m)
  case 0
  have "replicate n Absent = ?R 0" "replicate n False = ?U 0"
    by (auto intro: nth_equalityI)
  then show ?case by simp
next
  case (Suc m)
  then have m: "m < n" and IH: "?run m = (?R m, ?U m)" by simp_all
  have eq: "at g m = at s m \<longleftrightarrow> g ! m = s ! m"
    using m assms by (simp add: at_def)
  have step: "green_step g s (?R m, ?U m) m = (?R (Suc m), ?U (Suc m))"
  proof (cases "g ! m = s ! m")
    case True
    have "(?R m)[m := Correct] = ?R (Suc m)"
      using True m by (intro nth_equalityI) (auto simp: nth_list_update less_Suc_eq)
    moreover have "(?U m)[m := True] = ?U (Suc m)"
      using True m by (intro nth_equalityI) (auto simp: nth_list_update less_Suc_eq)
    ultimately show ?thesis
      using True by (simp add: green_step_def eq)
  next
    case False
    have "?R m = ?R (Suc m)" "?U m = ?U (Suc m)"
      using False by (auto simp: less_Suc_eq)
    with False show ?thesis
      by (simp add: green_step_def eq)
  qed
  have "?run (Suc m) = green_step g s (?run m) m"
    by simp
  then show ?case
    unfolding IH step .
qed

lemma greens_result:
  assumes "length g = EQUATION_LENGTH" "length s = EQUATION_LENGTH"
  shows "foldl (green_step g s)
           (replicate EQUATION_LENGTH Absent, replicate EQUATION_LENGTH False)
           [0..<EQUATION_LENGTH] =
           (map (\<lambda>i. if g ! i = s ! i then Correct else Absent) [0..<EQUATION_LENGTH],
            map (\<lambda>i. g ! i = s ! i) [0..<EQUATION_LENGTH])"
  using greens_prefix [OF assms order_refl] by simp

lemma find_filter: "find P (filter Q xs) = find (\<lambda>x. Q x \<and> P x) xs"
  by (induction xs) simp_all

lemma remove1_filter_distinct:
  "distinct xs \<Longrightarrow> remove1 j (filter P xs) = filter (\<lambda>x. P x \<and> x \<noteq> j) xs"
  by (induction xs) (auto simp: remove1_idem)

lemma find_Some_mem: "find P xs = Some x \<Longrightarrow> x \<in> set xs \<and> P x"
  by (induction xs) (auto split: if_splits)

lemma find_cong_set: "(\<And>x. x \<in> set xs \<Longrightarrow> P x = Q x) \<Longrightarrow> find P xs = find Q xs"
  by (induction xs) simp_all

lemma present_positions_subset:
  "set (present_positions g s ks free) \<subseteq> set ks"
  by (induction ks arbitrary: free) (auto split: option.splits)

lemma present_positions_distinct:
  "distinct ks \<Longrightarrow> distinct (present_positions g s ks free)"
  using present_positions_subset
  by (induction ks arbitrary: free) (fastforce split: option.splits)+

lemma yellows_present:
  assumes "length g = EQUATION_LENGTH" "length s = EQUATION_LENGTH"
  shows "distinct ks \<Longrightarrow> set ks \<subseteq> {..<EQUATION_LENGTH}
    \<Longrightarrow> length result = EQUATION_LENGTH \<Longrightarrow> length used = EQUATION_LENGTH
    \<Longrightarrow> fst (foldl (yellow_step g s) (result, used) ks) =
          map (\<lambda>k. if k \<in> set (present_positions g s
                                  (filter (\<lambda>k. result ! k \<noteq> Correct) ks)
                                  (filter (\<lambda>j. \<not> used ! j) [0..<EQUATION_LENGTH]))
                    then Present else result ! k) [0..<EQUATION_LENGTH]"
proof (induction ks arbitrary: result used)
  case Nil
  then show ?case by (auto intro: nth_equalityI)
next
  case (Cons k ks)
  let ?free = "filter (\<lambda>j. \<not> used ! j) [0..<EQUATION_LENGTH]"
  from Cons.prems have k: "k < EQUATION_LENGTH" "k \<notin> set ks"
    and ks: "distinct ks" "set ks \<subseteq> {..<EQUATION_LENGTH}" by auto
  have fnd: "find (\<lambda>j. \<not> used ! j \<and> at g k = at s j) [0..<EQUATION_LENGTH]
               = find (\<lambda>j. s ! j = g ! k) ?free"
    unfolding find_filter
    using k assms by (intro find_cong_set) (auto simp: at_def)
  show ?case
  proof (cases "result ! k = Correct")
    case True
    then show ?thesis
      using Cons.IH [OF ks Cons.prems(3,4)] by (simp add: yellow_step_def)
  next
    case False
    show ?thesis
    proof (cases "find (\<lambda>j. s ! j = g ! k) ?free")
      case None
      then show ?thesis
        using Cons.IH [OF ks Cons.prems(3,4)] False fnd by (simp add: yellow_step_def)
    next
      case (Some j)
      let ?result = "result[k := Present]" and ?used = "used[j := True]"
      from Some have j: "j \<in> set ?free"
        by (rule find_Some_mem [THEN conjunct1])
      then have j': "j < EQUATION_LENGTH" "\<not> used ! j" by auto
      have "?result ! k' = result ! k'" if "k' \<in> set ks" for k'
        using that k by (intro nth_list_update_neq) blast
      then have f1: "filter (\<lambda>k'. ?result ! k' \<noteq> Correct) ks
                       = filter (\<lambda>k'. result ! k' \<noteq> Correct) ks"
        by (intro filter_cong) simp_all
      have f2: "filter (\<lambda>j'. \<not> ?used ! j') [0..<EQUATION_LENGTH] = remove1 j ?free"
        using Cons.prems(4) j'
        by (subst remove1_filter_distinct) (auto simp: nth_list_update intro!: filter_cong)
      have step: "yellow_step g s (result, used) k = (?result, ?used)"
        using False fnd Some by (simp add: yellow_step_def)
      have "fst (foldl (yellow_step g s) (?result, ?used) ks) =
          map (\<lambda>k'. if k' \<in> set (present_positions g s
                                  (filter (\<lambda>k'. result ! k' \<noteq> Correct) ks)
                                  (remove1 j ?free))
                    then Present else ?result ! k') [0..<EQUATION_LENGTH]"
        using Cons.IH [OF ks, of ?result ?used] Cons.prems(3,4) by (simp add: f1 f2)
      then show ?thesis
        using False Some step Cons.prems(3)
        by (auto simp: nth_list_update)
    qed
  qed
qed

lemma score_against_two_pass:
  assumes "length g = EQUATION_LENGTH" "length s = EQUATION_LENGTH"
  shows "score_against g s = two_pass_score g s"
proof -
  let ?n = EQUATION_LENGTH
  let ?result = "map (\<lambda>i. if g ! i = s ! i then Correct else Absent) [0..<?n]"
  let ?used = "map (\<lambda>i. g ! i = s ! i) [0..<?n]"
  let ?others = "other_positions g s"
  let ?present = "present_positions g s ?others ?others"
  have o1: "filter (\<lambda>k. ?result ! k \<noteq> Correct) [0..<?n] = ?others"
    unfolding other_positions_def by (intro filter_cong) auto
  have o2: "filter (\<lambda>j. \<not> ?used ! j) [0..<?n] = ?others"
    unfolding other_positions_def by (intro filter_cong) auto
  have "score_against g s = fst (foldl (yellow_step g s) (?result, ?used) [0..<?n])"
    by (simp add: score_against_def Let_def greens_result [OF assms])
  also have "\<dots> = map (\<lambda>k. if k \<in> set ?present then Present else ?result ! k) [0..<?n]"
  proof -
    have sub: "set [0..<?n] \<subseteq> {..<?n}" by auto
    have len: "length ?result = ?n" "length ?used = ?n" by simp_all
    show ?thesis
      using yellows_present [OF assms distinct_upt sub len]
      by (simp only: o1 o2)
  qed
  also have "\<dots> = two_pass_score g s"
  proof -
    have "k \<notin> set (exact_positions g s)" if "k \<in> set ?present" for k
      using that present_positions_subset [of g s ?others ?others]
      by (auto simp: exact_positions_def other_positions_def)
    then show ?thesis
      by (auto simp: two_pass_score_def Let_def exact_positions_def)
  qed
  finally show ?thesis .
qed

lemma filter_remove1_count:
  "j \<in> set xs \<Longrightarrow>
     length (filter Q xs) = (if Q j then 1 else 0) + length (filter Q (remove1 j xs))"
  by (induction xs) auto

lemma present_positions_count:
  "length (filter (\<lambda>i. g ! i = c) (present_positions g s ks free))
     \<le> length (filter (\<lambda>j. s ! j = c) free)"
proof (induction ks arbitrary: free)
  case Nil
  then show ?case by simp
next
  case (Cons k ks)
  show ?case
  proof (cases "find (\<lambda>j. s ! j = g ! k) free")
    case None
    then show ?thesis using Cons.IH [of free] by simp
  next
    case (Some j)
    then have j: "j \<in> set free" "s ! j = g ! k"
      using find_Some_mem [OF Some] by simp_all
    show ?thesis
      using Cons.IH [of "remove1 j free"] Some j
        filter_remove1_count [OF j(1), of "\<lambda>j. s ! j = c"]
      by auto
  qed
qed

lemma length_filter_upt: "length (filter Q [0..<n]) = card {i. i < n \<and> Q i}"
proof -
  have "{x. Q x} \<inter> set [0..<n] = {i. i < n \<and> Q i}" by auto
  then show ?thesis by (simp add: distinct_length_filter)
qed

lemma two_pass_score_nth:
  "i < EQUATION_LENGTH \<Longrightarrow>
     two_pass_score g s ! i =
       (if g ! i = s ! i then Correct
        else if i \<in> set (present_positions g s (other_positions g s) (other_positions g s))
          then Present else Absent)"
  by (simp add: two_pass_score_def Let_def exact_positions_def)

lemma marked_count_bound:
  assumes "length g = EQUATION_LENGTH" "length s = EQUATION_LENGTH"
  shows "marked_count g (score_against g s) c \<le> count_list s c"
proof -
  let ?n = EQUATION_LENGTH
  let ?others = "other_positions g s"
  let ?present = "present_positions g s ?others ?others"
  define A where "A = {i. i < ?n \<and> s ! i = c \<and> g ! i = s ! i}"
  define B where "B = {i. i \<in> set ?present \<and> g ! i = c}"
  define C where "C = {i. i < ?n \<and> s ! i = c \<and> g ! i \<noteq> s ! i}"
  have fin: "finite A" "finite B" "finite C"
    by (simp_all add: A_def B_def C_def)
  have sub: "{i. i < ?n \<and> g ! i = c
                \<and> (two_pass_score g s ! i = Correct \<or> two_pass_score g s ! i = Present)}
               \<subseteq> A \<union> B"
    by (auto simp: A_def B_def two_pass_score_nth split: if_splits)
  have "marked_count g (score_against g s) c
          = card {i. i < ?n \<and> g ! i = c
                     \<and> (two_pass_score g s ! i = Correct \<or> two_pass_score g s ! i = Present)}"
    by (simp add: marked_count_def score_against_two_pass [OF assms] assms length_filter_upt)
  also have "\<dots> \<le> card (A \<union> B)"
    using sub fin by (intro card_mono) simp_all
  also have "card (A \<union> B) \<le> card A + card B"
    by (rule card_Un_le)
  also have "card B \<le> card C"
  proof -
    have "distinct ?others" by (simp add: other_positions_def)
    then have "distinct ?present" by (rule present_positions_distinct)
    then have "card B = length (filter (\<lambda>i. g ! i = c) ?present)"
      by (simp add: distinct_length_filter B_def Int_def conj_commute)
    also have "\<dots> \<le> length (filter (\<lambda>j. s ! j = c) ?others)"
      by (rule present_positions_count)
    also have "\<dots> = card C"
      by (simp add: other_positions_def length_filter_upt C_def conj_commute)
    finally show ?thesis .
  qed
  also have "card A + card C = card (A \<union> C)"
    using fin by (intro card_Un_disjoint [symmetric]) (auto simp: A_def C_def)
  also have "A \<union> C = {i. i < length s \<and> s ! i = c}"
    using assms by (auto simp: A_def C_def)
  also have "card \<dots> = count_list s c"
    by (simp add: count_list_eq_length_filter length_filter_conv_card eq_commute)
  finally show ?thesis by simp
qed

lemma upt_0_6: "[0..<6] = [0, 1, 2, 3, 4, 5::nat]"
  by (simp add: upt_rec)

lemma replicate_6: "replicate 6 x = [x, x, x, x, x, x]"
  by (simp add: numeral_eq_Suc)

lemma list_update_Cons_numeral:
  "(x # xs)[numeral v := y] = x # xs[numeral v - 1 := y]"
  by (simp add: numeral_eq_Suc)

lemma score_42:
  "score_against (js ''7'' @ [TIMES] @ js ''6=42'') (js ''6'' @ [TIMES] @ js ''7=42'')
     = [Present, Correct, Present, Correct, Correct, Correct]"
  by (simp add: score_against_def green_step_def yellow_step_def at_def EQUATION_LENGTH_def
      upt_0_6 replicate_6 list_update_Cons_numeral js_def Let_def)

section \<open>The statistics that play can store\<close>

lemma submitGuess_stats:
  "app_stats (submitGuess target dayNumber guess app) =
     (if \<not> app_finished app \<and> valid (validateGuess guess target)
      then completed (app_stats app) dayNumber True (length (app_guesses app) + 1)
      else app_stats app)"
  by (simp add: submitGuess_def Let_def)

lemma completed_win_streak:
  "0 \<le> streak stats \<Longrightarrow> 1 \<le> streak (completed stats dayNumber True n)"
  by (simp add: completed_def Let_def)

lemma run_streak:
  "0 \<le> streak (app_stats app) \<Longrightarrow> (lastDay (app_stats app) \<noteq> 0 \<longrightarrow> 1 \<le> streak (app_stats app))
     \<Longrightarrow> 0 \<le> streak (app_stats (run app events))
         \<and> (lastDay (app_stats (run app events)) \<noteq> 0
              \<longrightarrow> 1 \<le> streak (app_stats (run app events)))"
proof (induction app events rule: run.induct)
  case (1 app)
  then show ?case by simp
next
  case (2 app target dayNumber guess events)
  let ?app = "submitGuess target dayNumber guess app"
  have "1 \<le> streak (app_stats ?app) \<or> app_stats ?app = app_stats app"
    using "2.prems"(1) by (simp add: submitGuess_stats completed_win_streak)
  then have "0 \<le> streak (app_stats ?app)"
    "lastDay (app_stats ?app) \<noteq> 0 \<longrightarrow> 1 \<le> streak (app_stats ?app)"
    using "2.prems" by auto
  then show ?case using "2.IH" by simp
next
  case (3 app events)
  then show ?case by simp
qed

lemma played_streak:
  "lastDay (app_stats (run initialApp events)) \<noteq> 0
     \<Longrightarrow> 1 \<le> streak (app_stats (run initialApp events))"
  using run_streak [of initialApp events]
  by (simp add: initialApp_def initialStats_def)

section \<open>Canonical solutions\<close>

text \<open>
  Claim C1. For every target \<open>t\<close> from 1 to 99, the canonical solution has exactly 6
  characters and exactly one equals sign; splitting it at the equals sign gives a left
  side that evaluates to \<open>t\<close> and a right side that is the decimal numeral of \<open>t\<close>; and
  the validator accepts it as a guess for \<open>t\<close>.
\<close>

theorem canonical_solution_valid:
  assumes "1 \<le> t" "t \<le> 99"
  shows "length (getCanonicalSolution t) = 6
       \<and> count_list (getCanonicalSolution t) EQUALS = 1
       \<and> (\<exists>left. split (getCanonicalSolution t) EQUALS = [left, String_int t]
                 \<and> evaluate left = Some t)
       \<and> validateGuess (getCanonicalSolution t) t = \<lparr>valid = True, error = None\<rparr>"
proof -
  from canonical_form [OF assms] obtain left where
    canon: "getCanonicalSolution t = left @ EQUALS # String_int t"
    and len6: "length (left @ EQUALS # String_int t) = EQUATION_LENGTH"
    and ev: "evaluate left = Some t"
    by auto
  have noeq: "EQUALS \<notin> set left" "EQUALS \<notin> set (String_int t)"
    using ev by (simp_all add: evaluate_no_equals String_int_no_equals)
  have "count_list (left @ EQUALS # String_int t) EQUALS = 1"
    using noeq by (simp add: count_list_0_iff)
  moreover have "split (left @ EQUALS # String_int t) EQUALS = [left, String_int t]"
    using noeq by (rule split_two)
  moreover note validate_accepts [OF len6 ev] len6 ev
  ultimately show ?thesis
    unfolding canon by (simp add: EQUATION_LENGTH_def)
qed

theorem canonical_solution_valid_witness:
  "(1::int) \<le> 42 \<and> (42::int) \<le> 99 \<and> length (getCanonicalSolution 42) = 6
     \<and> validateGuess (getCanonicalSolution 42) 42 = \<lparr>valid = True, error = None\<rparr>"
  using canonical_solution_valid [of 42] by simp

text \<open>
  Claim C2, at the target 19, which is the daily target of 8 March 2026. No expression of
  a digit, an operator and a digit has the value 19, so the structured search of
  \<^verbatim>\<open>findSolution(19, 3)\<close> returns nothing and the function reaches its last line: the
  result is the target's numeral padded with a zero, with no operator, and the canonical
  solution for 19 is \<^verbatim>\<open>019=19\<close>.
\<close>

theorem fallback_reached_at_19:
  "getDailyTarget \<lparr>fullYear = 2026, month = 2, dayOfMonth = 8\<rparr> = 19
     \<and> structured 19 3 = None
     \<and> findSolution 19 3 = fallback 19 3
     \<and> findSolution 19 3 = js ''019''
     \<and> getCanonicalSolution 19 = js ''019=19''"
  by (simp add: target_2026_03_08 canonical_simps search3_at_19)

text \<open>
  Claim C10. A digit run with leading zeros evaluates to the value of the numeral without
  them: \<^verbatim>\<open>019\<close> evaluates to 19 and \<^verbatim>\<open>00+5\<close> to 5. The canonical solution for the
  target 5 is \<^verbatim>\<open>00+5=5\<close>, whose left operand has leading zeros, and the validator
  accepts it as a guess for the target 5.
\<close>

theorem leading_zeros_accepted:
  "(\<forall>k n. evaluate (replicate k ZERO @ decimal n) = Some (int n))
     \<and> evaluate (js ''019'') = Some 19
     \<and> evaluate (js ''00+5'') = Some 5
     \<and> getCanonicalSolution 5 = js ''00+5=5''
     \<and> validateGuess (js ''00+5=5'') 5 = \<lparr>valid = True, error = None\<rparr>"
proof -
  have "evaluate (replicate k ZERO @ decimal n) = Some (int n)" for k n
    by (simp add: evaluate_digits decimal_not_Nil decimal_digits zeros_digits
        digits_value_zeros digits_value_decimal)
  moreover have "evaluate (js ''019'') = Some 19"
    by (simp add: evaluate_simps js_def)
  moreover have "evaluate (js ''00+5'') = Some 5"
    by (simp add: evaluate_simps js_def)
  moreover have "validateGuess (js ''00+5=5'') 5 = \<lparr>valid = True, error = None\<rparr>"
    by (simp add: validateGuess_def evaluate_simps js_def split_def EQUATION_LENGTH_def
        Number_def String_int_def decimal_digit)
  ultimately show ?thesis
    using canonical_5 by simp
qed

theorem leading_zeros_accepted_witness:
  "evaluate (replicate 2 ZERO @ decimal 7) = Some 7
     \<and> validateGuess (getCanonicalSolution 5) 5 = \<lparr>valid = True, error = None\<rparr>"
proof -
  have "evaluate (replicate 2 ZERO @ decimal 7) = Some (int 7)"
    using leading_zeros_accepted by blast
  moreover have "validateGuess (getCanonicalSolution 5) 5 = \<lparr>valid = True, error = None\<rparr>"
    using leading_zeros_accepted by simp
  ultimately show ?thesis by simp
qed

section \<open>The evaluator\<close>

text \<open>
  Claim C3. \<open>evaluate\<close> computes what the two passes of the specification compute: the
  multiplications and divisions are resolved from left to right, which leaves numbers
  separated by additions and subtractions, and these are folded from left to right. In
  particular \<^verbatim>\<open>6\<times>7\<close> evaluates to 42 and \<^verbatim>\<open>2+3\<times>4\<close> to 14.
\<close>

theorem evaluate_two_pass_precedence:
  "(\<forall>e. evaluate e = two_pass e)
   \<and> evaluate (js ''6'' @ [TIMES] @ js ''7'') = Some 42
   \<and> evaluate (js ''2+3'' @ [TIMES] @ js ''4'') = Some 14"
proof -
  have "evaluate (js ''6'' @ [TIMES] @ js ''7'') = Some 42"
    by (simp add: evaluate_simps js_def)
  moreover have "evaluate (js ''2+3'' @ [TIMES] @ js ''4'') = Some 14"
    by (simp add: evaluate_simps js_def)
  ultimately show ?thesis
    using evaluate_two_pass by simp
qed

theorem evaluate_two_pass_precedence_witness:
  "evaluate (js ''8'' @ [DIVIDE] @ js ''2-3'' @ [TIMES] @ js ''4'') = Some (- 8)"
proof -
  have "two_pass (js ''8'' @ [DIVIDE] @ js ''2-3'' @ [TIMES] @ js ''4'') = Some (- 8)"
    by (simp add: two_pass_def tokenize_def is_digit_def is_op_def digits_value_def
        fold_sums_def js_def)
  then show ?thesis
    using evaluate_two_pass_precedence by simp
qed

text \<open>
  Claim C4. For an expression of at most 15 characters, where every number that the
  source computes is an integer below \<open>2 ^ 53\<close> and its double arithmetic is the integer
  arithmetic of the model, \<open>evaluate\<close> fails (returns \<open>None\<close>) exactly when the
  expression is empty, contains a character that is neither a digit nor an operator, has
  an operator without a number before it, ends with an operator, or contains a division
  whose divisor is 0 or whose quotient is not an integer. In particular \<^verbatim>\<open>10\<div>3\<close> and
  \<^verbatim>\<open>5\<div>0\<close> fail.
\<close>

theorem evaluate_fails_iff:
  assumes "length e \<le> 15"
  shows "(evaluate e = None \<longleftrightarrow>
      e = [] \<or> has_foreign e \<or> operator_without_number e \<or> ends_mid_operator e
        \<or> division_fails e)
   \<and> evaluate (js ''10'' @ [DIVIDE] @ js ''3'') = None
   \<and> evaluate (js ''5'' @ [DIVIDE] @ js ''0'') = None"
proof -
  have "evaluate e = None \<longleftrightarrow>
      e = [] \<or> has_foreign e \<or> operator_without_number e \<or> ends_mid_operator e
        \<or> division_fails e"
    unfolding evaluate_two_pass two_pass_None_iff tokenize_None_iff by blast
  moreover have "evaluate (js ''10'' @ [DIVIDE] @ js ''3'') = None"
    by (simp add: evaluate_simps js_def)
  moreover have "evaluate (js ''5'' @ [DIVIDE] @ js ''0'') = None"
    by (simp add: evaluate_simps js_def)
  ultimately show ?thesis by blast
qed

theorem evaluate_fails_iff_witness:
  "length (js ''1+8'' @ [DIVIDE] @ js ''3'') \<le> 15
     \<and> division_fails (js ''1+8'' @ [DIVIDE] @ js ''3'')
     \<and> evaluate (js ''1+8'' @ [DIVIDE] @ js ''3'') = None
     \<and> length (js ''1+8'' @ [DIVIDE] @ js ''2'') \<le> 15
     \<and> evaluate (js ''1+8'' @ [DIVIDE] @ js ''2'') \<noteq> None"
proof -
  have len: "length (js ''1+8'' @ [DIVIDE] @ js ''3'') \<le> 15"
    "length (js ''1+8'' @ [DIVIDE] @ js ''2'') \<le> 15"
    by (simp_all add: js_def)
  have bad: "division_fails (js ''1+8'' @ [DIVIDE] @ js ''3'')"
    by (simp add: division_fails_def tokenize_def is_digit_def is_op_def digits_value_def
        js_def)
  have good: "\<not> division_fails (js ''1+8'' @ [DIVIDE] @ js ''2'')"
    "\<not> has_foreign (js ''1+8'' @ [DIVIDE] @ js ''2'')"
    "\<not> operator_without_number (js ''1+8'' @ [DIVIDE] @ js ''2'')"
    "\<not> ends_mid_operator (js ''1+8'' @ [DIVIDE] @ js ''2'')"
    by (simp_all add: division_fails_def tokenize_def is_digit_def is_op_def digits_value_def
        has_foreign_def operator_without_number_def ends_mid_operator_def js_def)
  have "evaluate (js ''1+8'' @ [DIVIDE] @ js ''3'') = None"
    using bad evaluate_fails_iff [OF len(1)] by blast
  moreover have "evaluate (js ''1+8'' @ [DIVIDE] @ js ''2'') \<noteq> None"
    using good evaluate_fails_iff [OF len(2)]
    by (simp add: js_def)
  ultimately show ?thesis using bad len by blast
qed

section \<open>The daily target\<close>

text \<open>
  Claim C6. The step \<^verbatim>\<open>((hash << 5) - hash + charCode) | 0\<close> is \<open>hash * 31 + charCode\<close>
  wrapped to 32 bits signed; \<open>getDailyTarget\<close> of a date is
  \<open>((h AND 0x7fffffff) mod 99) + 1\<close> for the multiply-by-31 rolling hash \<open>h\<close> of the
  date string; the result lies between 1 and 99; and dates with the same date string have
  the same target.
\<close>

theorem daily_target_hash:
  "(\<forall>h ch. hash_step h ch = wrap32 (h * 31 + int ch))
   \<and> getDailyTarget d = (hash31 (dateStr d) AND 0x7fffffff) mod 99 + 1
   \<and> 1 \<le> getDailyTarget d \<and> getDailyTarget d \<le> 99
   \<and> (dateStr d = dateStr d' \<longrightarrow> getDailyTarget d = getDailyTarget d')"
  using target_of_string_range [of "dateStr d"]
  by (simp add: hash_step_31 getDailyTarget_def target_of_string_def bitAnd_mask int_and_mask
      hash_of_hash31)

theorem daily_target_hash_witness:
  "dateStr \<lparr>fullYear = 2026, month = 1, dayOfMonth = 5\<rparr> = js ''2026-02-05''
     \<and> hash31 (js ''2026-02-05'') = 1161695525
     \<and> getDailyTarget \<lparr>fullYear = 2026, month = 1, dayOfMonth = 5\<rparr> = 24"
proof -
  have str: "dateStr \<lparr>fullYear = 2026, month = 1, dayOfMonth = 5\<rparr> = js ''2026-02-05''"
    by (simp add: dateStr_def String_int_def decimal.simps padStart_def js_def)
  have h: "hash31 (js ''2026-02-05'') = 1161695525"
    by (simp add: hash31_def wrap32_def js_def)
  have "getDailyTarget \<lparr>fullYear = 2026, month = 1, dayOfMonth = 5\<rparr>
          = (hash31 (js ''2026-02-05'') AND 0x7fffffff) mod 99 + 1"
    using daily_target_hash [of "\<lparr>fullYear = 2026, month = 1, dayOfMonth = 5\<rparr>"]
    unfolding str by blast
  also have "\<dots> = 24"
    unfolding h by (simp add: int_and_mask take_bit_eq_mod)
  finally show ?thesis using str h by simp
qed

section \<open>The streak\<close>

text \<open>
  Claim C8. In the statistics update of a completed game the streak is set to 0 on a
  loss. On a win it becomes the stored streak plus 1 when \<open>lastDay\<close> is \<open>dayNumber - 1\<close>
  or 0. On a win under any other \<open>lastDay\<close> it is set to 1; for statistics that play has
  stored (\<open>stored\<close>, after any sequence of events from the first visit) this is not an
  increment: the new streak is at most the stored one. So on such statistics a win
  gives the stored streak plus 1 only when \<open>lastDay\<close> is \<open>dayNumber - 1\<close> or 0.
\<close>

theorem streak_update:
  assumes "stored = app_stats (run initialApp events)"
  shows "streak (completed stats dayNumber False n) = 0
   \<and> (lastDay stats = dayNumber - 1 \<or> lastDay stats = 0
        \<longrightarrow> streak (completed stats dayNumber True n) = streak stats + 1)
   \<and> (lastDay stats \<noteq> dayNumber - 1 \<and> lastDay stats \<noteq> 0
        \<longrightarrow> streak (completed stats dayNumber True n) = 1)
   \<and> (lastDay stored \<noteq> dayNumber - 1 \<and> lastDay stored \<noteq> 0
        \<longrightarrow> streak (completed stored dayNumber True n) \<le> streak stored)
   \<and> (streak (completed stored dayNumber True n) = streak stored + 1
        \<longrightarrow> lastDay stored = dayNumber - 1 \<or> lastDay stored = 0)"
proof -
  have "1 \<le> streak stored" if "lastDay stored \<noteq> 0"
    using that played_streak [of events] assms by simp
  then show ?thesis
    by (auto simp: completed_def Let_def)
qed

theorem streak_update_witness:
  "app_stats (run initialApp
       [Submit 14 2 (js ''7+7=14''), Reload,
        Submit 5 3 (js ''00+5=5'')])
     = \<lparr>played = 2, won = 2, streak = 2, maxStreak = 2,
        guessDistribution = [2, 0, 0, 0, 0, 0], lastDay = 3\<rparr>
   \<and> streak (completed \<lparr>played = 2, won = 2, streak = 2, maxStreak = 2,
        guessDistribution = [2, 0, 0, 0, 0, 0], lastDay = 3\<rparr> 4 True 1) = 3
   \<and> streak (completed \<lparr>played = 2, won = 2, streak = 2, maxStreak = 2,
        guessDistribution = [2, 0, 0, 0, 0, 0], lastDay = 3\<rparr> 10 True 1) = 1
   \<and> streak (completed \<lparr>played = 2, won = 2, streak = 2, maxStreak = 2,
        guessDistribution = [2, 0, 0, 0, 0, 0], lastDay = 3\<rparr> 10 False 6) = 0"
proof -
  let ?events = "[Submit 14 2 (js ''7+7=14''), Reload,
        Submit 5 3 (js ''00+5=5'')]"
  let ?stored = "\<lparr>played = 2, won = 2, streak = 2, maxStreak = 2,
        guessDistribution = [2, 0, 0, 0, 0, 0], lastDay = 3\<rparr>"
  have v14: "validateGuess (js ''7+7=14'') 14 = \<lparr>valid = True, error = None\<rparr>"
    by (simp add: validateGuess_def evaluate_simps js_def split_def EQUATION_LENGTH_def
        Number_def String_int_def decimal_two)
  have v5: "validateGuess (js ''00+5=5'') 5 = \<lparr>valid = True, error = None\<rparr>"
    by (simp add: validateGuess_def evaluate_simps js_def split_def EQUATION_LENGTH_def
        Number_def String_int_def decimal_digit)
  have run: "app_stats (run initialApp ?events) = ?stored"
    by (simp add: submitGuess_def v14 v5 initialApp_def initialStats_def completed_def
        MAX_GUESSES_def Let_def)
  note stored = run [symmetric]
  show ?thesis
    using streak_update [OF stored, of ?stored 4 1] streak_update [OF stored, of ?stored 10 1]
      streak_update [OF stored, of ?stored 10 6] run
    by simp
qed

section \<open>The validator\<close>

text \<open>
  Claim C5. For a target from 1 to 99, \<open>validateGuess\<close> applies six checks in a fixed
  order and stops at the first that fails, returning \<open>valid = False\<close> and the reason of that
  check in the field \<open>error\<close>: the length is 6; there is exactly one equals sign; both
  sides are not empty; the right side is the decimal numeral of the target verbatim; the
  left side evaluates; its value is the target. The six reasons are pairwise distinct
  strings. A string whose length is not 6 is rejected with the length reason whatever it
  contains, and a guess is reported valid, with no error, exactly when it passes the six
  checks.
\<close>

theorem validateGuess_checks:
  assumes "1 \<le> t" "t \<le> 99"
  shows "validateGuess g t =
     (if length g \<noteq> 6
        then \<lparr>valid = False, error = Some (js ''Equation must be 6 characters'')\<rparr>
      else if count_list g EQUALS \<noteq> 1
        then \<lparr>valid = False, error = Some (js ''Equation must contain exactly one ='')\<rparr>
      else if left_of g = [] \<or> right_of g = []
        then \<lparr>valid = False, error = Some (js ''Both sides of = must have values'')\<rparr>
      else if right_of g \<noteq> String_int t
        then \<lparr>valid = False, error = Some (js ''Right side must equal '' @ String_int t)\<rparr>
      else (case evaluate (left_of g) of
              None \<Rightarrow> \<lparr>valid = False, error = Some (js ''Invalid expression'')\<rparr>
            | Some v \<Rightarrow>
                if v \<noteq> t
                then \<lparr>valid = False,
                      error = Some (js ''Expression equals '' @ String_int v
                                      @ js '', not '' @ String_int t)\<rparr>
                else \<lparr>valid = True, error = None\<rparr>))
   \<and> distinct
        [js ''Equation must be 6 characters'',
         js ''Equation must contain exactly one ='',
         js ''Both sides of = must have values'',
         js ''Right side must equal '' @ String_int t,
         js ''Invalid expression'',
         js ''Expression equals '' @ String_int v @ js '', not '' @ String_int t]
   \<and> (length g \<noteq> 6 \<longrightarrow>
        valid (validateGuess g t) = False
        \<and> error (validateGuess g t) = Some (js ''Equation must be 6 characters''))
   \<and> (valid (validateGuess g t) \<longleftrightarrow>
        length g = 6 \<and> count_list g EQUALS = 1 \<and> left_of g \<noteq> [] \<and> right_of g \<noteq> []
        \<and> right_of g = String_int t \<and> evaluate (left_of g) = Some t)
   \<and> (valid (validateGuess g t) \<longleftrightarrow> error (validateGuess g t) = None)
   \<and> String_int t = decimal (nat t)"
proof -
  note chain = validateGuess_chain [of g t, unfolded reject_def msg_length_text
      msg_one_eq_def msg_sides_def msg_right_def msg_invalid_def msg_value_def]
  have "length g \<noteq> 6 \<longrightarrow>
        valid (validateGuess g t) = False
        \<and> error (validateGuess g t) = Some (js ''Equation must be 6 characters'')"
    by (simp add: chain)
  moreover have "valid (validateGuess g t) \<longleftrightarrow>
        length g = 6 \<and> count_list g EQUALS = 1 \<and> left_of g \<noteq> [] \<and> right_of g \<noteq> []
        \<and> right_of g = String_int t \<and> evaluate (left_of g) = Some t"
    unfolding chain by (auto split: option.splits)
  moreover have "valid (validateGuess g t) \<longleftrightarrow> error (validateGuess g t) = None"
    unfolding chain by (auto split: option.splits)
  moreover have "String_int t = decimal (nat t)"
    using assms by (simp add: String_int_def)
  ultimately show ?thesis
    using chain message_texts_distinct [of t v t] by blast
qed

theorem validateGuess_checks_witness:
  "validateGuess (js ''1+1=2'') 2
     = \<lparr>valid = False, error = Some (js ''Equation must be 6 characters'')\<rparr>
   \<and> validateGuess (js ''1+2==3'') 3
     = \<lparr>valid = False, error = Some (js ''Equation must contain exactly one ='')\<rparr>
   \<and> validateGuess (js ''=12345'') 5
     = \<lparr>valid = False, error = Some (js ''Both sides of = must have values'')\<rparr>
   \<and> validateGuess (js ''1+4=05'') 5
     = \<lparr>valid = False, error = Some (js ''Right side must equal 5'')\<rparr>
   \<and> validateGuess (js ''1++4=5'') 5
     = \<lparr>valid = False, error = Some (js ''Invalid expression'')\<rparr>
   \<and> validateGuess (js ''12+3=5'') 5
     = \<lparr>valid = False, error = Some (js ''Expression equals 15, not 5'')\<rparr>
   \<and> validateGuess (js ''10-5=5'') 5 = \<lparr>valid = True, error = None\<rparr>"
proof -
  note defs = js_def left_of_def right_of_def String_int_def decimal_digit decimal_two
    evaluate_simps
  have "validateGuess (js ''1+1=2'') 2
     = \<lparr>valid = False, error = Some (js ''Equation must be 6 characters'')\<rparr>"
    using validateGuess_checks [of 2 "js ''1+1=2''"] by (simp add: js_def)
  moreover have "validateGuess (js ''1+2==3'') 3
     = \<lparr>valid = False, error = Some (js ''Equation must contain exactly one ='')\<rparr>"
    using validateGuess_checks [of 3 "js ''1+2==3''"] by (simp add: js_def)
  moreover have "validateGuess (js ''=12345'') 5
     = \<lparr>valid = False, error = Some (js ''Both sides of = must have values'')\<rparr>"
    using validateGuess_checks [of 5 "js ''=12345''"] by (simp add: defs)
  moreover have "validateGuess (js ''1+4=05'') 5
     = \<lparr>valid = False, error = Some (js ''Right side must equal 5'')\<rparr>"
    using validateGuess_checks [of 5 "js ''1+4=05''"] by (simp add: defs)
  moreover have "validateGuess (js ''1++4=5'') 5
     = \<lparr>valid = False, error = Some (js ''Invalid expression'')\<rparr>"
    using validateGuess_checks [of 5 "js ''1++4=5''"] by (simp add: defs)
  moreover have "validateGuess (js ''12+3=5'') 5
     = \<lparr>valid = False, error = Some (js ''Expression equals 15, not 5'')\<rparr>"
    using validateGuess_checks [of 5 "js ''12+3=5''"] by (simp add: defs)
  moreover have "validateGuess (js ''10-5=5'') 5 = \<lparr>valid = True, error = None\<rparr>"
    using validateGuess_checks [of 5 "js ''10-5=5''"] by (simp add: defs)
  ultimately show ?thesis by blast
qed

section \<open>The scorer\<close>

text \<open>
  Claim C7. For a guess of 6 characters and a target from 1 to 99, \<open>getGuessResult\<close>
  gives what the two passes of the specification give against the canonical solution:
  the positions where guess and solution agree are correct and consume that solution
  position; each other guess position, from left to right, is present and consumes the
  first solution position not yet consumed that holds its character, and is absent when
  there is none. The canonical solution for 42 is \<^verbatim>\<open>6\<times>7=42\<close>, and the guess
  \<^verbatim>\<open>7\<times>6=42\<close> is scored present, correct, present, correct, correct, correct.
\<close>

theorem guess_result_two_pass:
  "(\<forall>g t. length g = EQUATION_LENGTH \<and> 1 \<le> t \<and> t \<le> 99
       \<longrightarrow> getGuessResult g t = two_pass_score g (getCanonicalSolution t))
   \<and> getCanonicalSolution 42 = js ''6'' @ [TIMES] @ js ''7=42''
   \<and> getGuessResult (js ''7'' @ [TIMES] @ js ''6=42'') 42
        = [Present, Correct, Present, Correct, Correct, Correct]"
proof -
  have "getGuessResult g t = two_pass_score g (getCanonicalSolution t)"
    if "length g = EQUATION_LENGTH" "1 \<le> t" "t \<le> 99" for g t
    using canonical_form [OF that(2,3)] that(1)
    by (auto simp: getGuessResult_def intro: score_against_two_pass)
  moreover have "getGuessResult (js ''7'' @ [TIMES] @ js ''6=42'') 42
        = [Present, Correct, Present, Correct, Correct, Correct]"
    by (simp only: getGuessResult_def canonical_42 score_42)
  ultimately show ?thesis
    using canonical_42 by blast
qed

theorem guess_result_two_pass_witness:
  "two_pass_score (js ''7'' @ [TIMES] @ js ''6=42'') (getCanonicalSolution 42)
     = [Present, Correct, Present, Correct, Correct, Correct]"
proof -
  note general = guess_result_two_pass [THEN conjunct1, rule_format]
  note example = guess_result_two_pass [THEN conjunct2, THEN conjunct2]
  have "length (js ''7'' @ [TIMES] @ js ''6=42'') = EQUATION_LENGTH \<and> (1::int) \<le> 42
          \<and> (42::int) \<le> 99"
    by (simp add: js_def EQUATION_LENGTH_def)
  then have "getGuessResult (js ''7'' @ [TIMES] @ js ''6=42'') 42
           = two_pass_score (js ''7'' @ [TIMES] @ js ''6=42'') (getCanonicalSolution 42)"
    by (rule general)
  with example show ?thesis by simp
qed

text \<open>
  Claim C9. For a guess of 6 characters and a target from 1 to 99, \<open>getGuessResult\<close>
  returns 6 cell states, none of them \<open>Empty\<close>, and for every character the number of
  guess positions that hold it and are marked correct or present is at most the number
  of its occurrences in the canonical solution.
\<close>

theorem guess_result_cells:
  assumes "length g = EQUATION_LENGTH" "1 \<le> t" "t \<le> 99"
  shows "length (getGuessResult g t) = 6
       \<and> Empty \<notin> set (getGuessResult g t)
       \<and> (\<forall>c. marked_count g (getGuessResult g t) c \<le> count_list (getCanonicalSolution t) c)"
proof -
  from canonical_form [OF assms(2,3)]
  have len: "length (getCanonicalSolution t) = EQUATION_LENGTH" by blast
  have eq: "getGuessResult g t = two_pass_score g (getCanonicalSolution t)"
    by (simp add: getGuessResult_def score_against_two_pass [OF assms(1) len])
  have "length (getGuessResult g t) = 6"
    by (simp add: eq two_pass_score_def Let_def EQUATION_LENGTH_def)
  moreover have "Empty \<notin> set (getGuessResult g t)"
    by (auto simp: eq two_pass_score_def Let_def)
  moreover have "marked_count g (getGuessResult g t) c \<le> count_list (getCanonicalSolution t) c"
    for c
    unfolding getGuessResult_def by (rule marked_count_bound [OF assms(1) len])
  ultimately show ?thesis by blast
qed

theorem guess_result_cells_witness:
  "length (js ''7+7=14'') = EQUATION_LENGTH \<and> (1::int) \<le> 14 \<and> (14::int) \<le> 99
   \<and> length (getGuessResult (js ''7+7=14'') 14) = 6
   \<and> marked_count (js ''7+7=14'') (getGuessResult (js ''7+7=14'') 14) 55
        \<le> count_list (getCanonicalSolution 14) 55"
proof -
  have "length (js ''7+7=14'') = EQUATION_LENGTH"
    by (simp add: js_def EQUATION_LENGTH_def)
  then show ?thesis
    using guess_result_cells [of "js ''7+7=14''" 14] by simp
qed

end
